theory Spec2Isabelle
  imports Main
begin

section \<open>FoxP2P: the Host and Client session controllers of src/lib/index.ts\<close>

text \<open>
  The program is event driven and single threaded: every method call and every event
  of the relay socket or of a peer channel runs one handler to its end.  The model is a
  step function per role over the fields of the object, the peer instances it has
  created (a store indexed by creation order) and a log of the calls made to the
  functions the application passed in.  A handler that throws leaves the object as it
  was at the throw and its listeners stay registered, so the result of a step keeps the
  state next to the error.
\<close>

subsection \<open>Relay envelopes\<close>

type_synonym signal = string

text \<open>
  A function supplied by the application (the argument of \<open>listenForGuests\<close> or
  \<open>listenForMessages\<close>) is known by its identity only.
\<close>

type_synonym callback = nat

text \<open>
  The value \<open>JSON.parse\<close> returns for a relay message, by its \<open>type\<close> field.
  Modelled from the spec: the enum \<open>SignalResponses\<close> and the response classes of
  \<open>models/\<close> are not under src/; the members \<open>RoomCreated\<close>, \<open>GuestRequest\<close>,
  \<open>RoomJoined\<close> and \<open>RequestAccepted\<close> are distinct discriminants with the fields of
  the spec's table, and \<open>Unrecognized raw\<close> is any other parsed value.
\<close>

datatype signal_response =
    RoomCreated string
  | GuestRequest signal string
  | RoomJoined string
  | RequestAccepted
  | Unrecognized string

text \<open>
  What reaches a \<open>data\<close> listener of the socket: text that \<open>JSON.parse\<close> rejects, the
  JSON value \<open>null\<close> (reading its \<open>type\<close> is a TypeError), or a parsed value.
\<close>

datatype relay_data = Unparseable string | JsonNull | Envelope signal_response

text \<open>
  The requests the program sends to the relay (\<open>JoinRoomRequest\<close> carries the offer
  whose JSON text is its \<open>offer\<close> field, and the room).
\<close>

datatype relay_request =
    CreateRoomRequest
  | AddToRoomRequest signal string
  | JoinRoomRequest signal string

datatype error =
    UnknownEvent signal_response
  | Error string
  | TypeError string
  | SyntaxError string
  | Timeout

datatype 'a outcome = Done 'a | Thrown error 'a

fun state_of :: "'a outcome \<Rightarrow> 'a" where
  "state_of (Done s) = s"
| "state_of (Thrown e s) = s"

fun thrown :: "'a outcome \<Rightarrow> error option" where
  "thrown (Done s) = None"
| "thrown (Thrown e s) = Some e"

subsection \<open>The transports, as far as the program touches them\<close>

text \<open>
  A simple-websocket connection: the address it was opened to, what was sent on it and
  whether \<open>destroy\<close> was called.  \<open>Host.createRoom\<close> and the constructor of \<open>Client\<close>
  attach their listeners to the socket they open, so a relay event reaches the handler
  of an object exactly when the object has a socket.
\<close>

record Socket =
  url :: string
  outbox :: "relay_request list"
  socket_destroyed :: bool

definition Socket_new :: "string \<Rightarrow> Socket" where
  "Socket_new server = \<lparr>url = server, outbox = [], socket_destroyed = False\<rparr>"

definition Socket_send :: "relay_request \<Rightarrow> Socket \<Rightarrow> error + Socket" where
  "Socket_send r s =
     (if socket_destroyed s then Inl (TypeError ''send on a destroyed socket'')
      else Inr (s\<lparr>outbox := outbox s @ [r]\<rparr>))"

text \<open>
  A simple-peer instance.  A listener is kept as the variables its closure captured;
  \<open>on\<close> appends to the list of its event.  \<open>connected\<close> records that the transport
  has emitted \<open>connect\<close>.  \<open>send\<close> throws before \<open>connect\<close> has fired and after
  \<open>destroy\<close>, as the transport documents.
\<close>

record ('s, 'c, 'd) Instance =
  initiator :: bool
  trickle :: bool
  signalled :: "signal list"
  on_signal :: "'s list"
  on_connect :: "'c list"
  on_data :: "'d list"
  connected :: bool
  destroyed :: bool
  sent :: "string list"

definition Peer_new :: "bool \<Rightarrow> bool \<Rightarrow> ('s, 'c, 'd) Instance" where
  "Peer_new i t =
     \<lparr>initiator = i, trickle = t, signalled = [], on_signal = [], on_connect = [],
      on_data = [], connected = False, destroyed = False, sent = []\<rparr>"

definition Peer_signal :: "signal \<Rightarrow> ('s, 'c, 'd) Instance \<Rightarrow> ('s, 'c, 'd) Instance" where
  "Peer_signal d p = (if destroyed p then p else p\<lparr>signalled := signalled p @ [d]\<rparr>)"

definition Peer_send :: "string \<Rightarrow> ('s, 'c, 'd) Instance \<Rightarrow> error + ('s, 'c, 'd) Instance" where
  "Peer_send chunk p =
     (if connected p \<and> \<not> destroyed p then Inr (p\<lparr>sent := sent p @ [chunk]\<rparr>)
      else Inl (Error ''cannot send: peer is not connected''))"

text \<open>
  \<open>emit\<close>: the listeners of an event run in the order of their registration, over the
  list as it was when the event fired; a throw ends the event.
\<close>

fun emit :: "('l \<Rightarrow> 'a \<Rightarrow> 'a outcome) \<Rightarrow> 'l list \<Rightarrow> 'a \<Rightarrow> 'a outcome" where
  "emit f [] s = Done s"
| "emit f (l # ls) s =
     (case f l s of Done s' \<Rightarrow> emit f ls s' | Thrown e s' \<Rightarrow> Thrown e s')"

subsection \<open>Promises\<close>

datatype 'a promise = Pending | Resolved 'a | Rejected error

text \<open>
  Modelled from the spec: \<open>util/managedPromise\<close> is not under src/.  A Resolvable
  Future starts unresolved; \<open>resolve\<close> moves it to resolved once; a further
  \<open>resolve\<close> is an error or does nothing, as the implementer chooses, and the choice
  is the parameter \<open>resolve_policy\<close>.
\<close>

datatype resolve_policy = NoOp | ContractViolation

definition ManagedPromise_new :: "'a promise" where
  "ManagedPromise_new = Pending"

definition ManagedPromise_resolve :: "resolve_policy \<Rightarrow> 'a \<Rightarrow> 'a promise \<Rightarrow> error + 'a promise" where
  "ManagedPromise_resolve pol v p =
     (case p of
        Pending \<Rightarrow> Inr (Resolved v)
      | _ \<Rightarrow> (case pol of
                NoOp \<Rightarrow> Inr p
              | ContractViolation \<Rightarrow> Inl (Error ''resolve called more than once'')))"

text \<open>
  Modelled from the spec: \<open>util/timedPromise\<close> is not under src/.  A Timed Awaitable
  made at time \<open>t\<close> with duration \<open>ms\<close> settles successfully when its completion signal
  fires before the timeout elapses and fails with \<open>Timeout\<close> otherwise; the first to
  fire wins and the awaitable never changes once settled.  Which one wins when both
  fall on the same millisecond is not promised: the parameter \<open>timer_wins_tie\<close>.
\<close>

record timed =
  deadline :: nat
  settled :: "unit promise"

definition TimedPromise :: "nat \<Rightarrow> nat \<Rightarrow> timed" where
  "TimedPromise ms t = \<lparr>deadline = t + ms, settled = Pending\<rparr>"

definition timed_resolve :: "timed \<Rightarrow> timed" where
  "timed_resolve tp = (case settled tp of Pending \<Rightarrow> tp\<lparr>settled := Resolved ()\<rparr> | _ \<Rightarrow> tp)"

definition timed_elapse :: "bool \<Rightarrow> nat \<Rightarrow> timed \<Rightarrow> timed" where
  "timed_elapse tie t tp =
     (case settled tp of
        Pending \<Rightarrow>
          (if deadline tp < t \<or> (deadline tp = t \<and> tie) then tp\<lparr>settled := Rejected Timeout\<rparr>
           else tp)
      | _ \<Rightarrow> tp)"

subsection \<open>What the source leaves to its environment\<close>

text \<open>
  \<open>stringify\<close> is \<open>JSON.stringify\<close> on the application's messages;
  \<open>second_resolve\<close> and \<open>timer_wins_tie\<close> are the two choices above;
  \<open>rejects_non_function\<close> says whether \<open>on\<close> of the peer transport throws a
  TypeError when the listener it is given is \<open>undefined\<close> (Node's event emitter does).
\<close>

record 'm env =
  stringify :: "'m \<Rightarrow> string"
  second_resolve :: resolve_policy
  timer_wins_tie :: bool
  rejects_non_function :: bool

subsection \<open>Fields shared by both classes\<close>

datatype call = GuestJoined callback string | MessageReceived callback string

record 'p session =
  socket :: "Socket option"
  onMessageReceived :: "callback option"
  peers :: "'p list"
  calls :: "call list"

text \<open>\<open>this.socket.send(JSON.stringify(request))\<close>\<close>

definition socket_send :: "relay_request \<Rightarrow> ('p, 'z) session_scheme \<Rightarrow> ('p, 'z) session_scheme outcome" where
  "socket_send r s =
     (case socket s of
        None \<Rightarrow> Thrown (TypeError ''socket is undefined'') s
      | Some k \<Rightarrow> (case Socket_send r k of
                     Inl e \<Rightarrow> Thrown e s
                   | Inr k' \<Rightarrow> Done (s\<lparr>socket := Some k'\<rparr>)))"

text \<open>\<open>listenForMessages\<close>, the same in \<open>Host\<close> (line 92) and \<open>Client\<close> (line 145).\<close>

definition listenForMessages :: "callback \<Rightarrow> ('p, 'z) session_scheme \<Rightarrow> ('p, 'z) session_scheme" where
  "listenForMessages cb s = s\<lparr>onMessageReceived := Some cb\<rparr>"

datatype transport_event =
    SocketConnect
  | SocketData relay_data
  | PeerSignal nat signal
  | PeerConnect nat
  | PeerData nat string

subsection \<open>Host\<close>

text \<open>
  The listeners of a guest's peer: the \<open>signal\<close> and \<open>connect\<close> closures of
  \<open>registerGuest\<close> capture \<open>request.client\<close>, the \<open>data\<close> closure captures nothing.
  \<open>connections\<close> is the \<open>Map\<close> in insertion order, its values the positions of the
  peers in the store.
\<close>

type_synonym host_peer = "(string, string, unit) Instance"

record host = "host_peer session" +
  connections :: "(string \<times> nat) list"
  guestJoinedCallback :: "callback option"
  signalServer :: string
  roomCreated :: "string promise"

definition Host_new :: "string \<Rightarrow> host" where
  "Host_new server =
     \<lparr>socket = None, onMessageReceived = None, peers = [], calls = [],
      connections = [], guestJoinedCallback = None, signalServer = server,
      roomCreated = ManagedPromise_new\<rparr>"

text \<open>\<open>Map.set\<close>: a key that is present keeps its place, a new key goes last.\<close>

fun Map_set :: "'k \<Rightarrow> 'v \<Rightarrow> ('k \<times> 'v) list \<Rightarrow> ('k \<times> 'v) list" where
  "Map_set k v [] = [(k, v)]"
| "Map_set k v ((k', v') # kvs) =
     (if k = k' then (k, v) # kvs else (k', v') # Map_set k v kvs)"

definition Map_has :: "'k \<Rightarrow> ('k \<times> 'v) list \<Rightarrow> bool" where
  "Map_has k kvs = (k \<in> fst ` set kvs)"

definition Map_get :: "'k \<Rightarrow> ('k \<times> 'v) list \<Rightarrow> 'v option" where
  "Map_get k kvs = map_of kvs k"

text \<open>
  \<open>createRoom\<close> opens the socket with the two listeners below and returns
  \<open>this.roomCreated.promise\<close>, which is the field \<open>roomCreated\<close> of the state.
\<close>

definition createRoom :: "host \<Rightarrow> host" where
  "createRoom h = h\<lparr>socket := Some (Socket_new (signalServer h))\<rparr>"

definition Host_socket_connect :: "host \<Rightarrow> host outcome" where
  "Host_socket_connect h = socket_send CreateRoomRequest h"

definition registerGuest :: "signal \<Rightarrow> string \<Rightarrow> host \<Rightarrow> host" where
  "registerGuest offer client h =
     (let newPeer = Peer_signal offer (Peer_new False False);
          newPeer = newPeer\<lparr>on_signal := on_signal newPeer @ [client]\<rparr>;
          newPeer = newPeer\<lparr>on_connect := on_connect newPeer @ [client]\<rparr>
      in h\<lparr>peers := peers h @ [newPeer]\<rparr>)"

text \<open>The listener of \<open>registerEvents\<close> (lines 44 to 58).\<close>

definition Host_socket_data :: "'m env \<Rightarrow> relay_data \<Rightarrow> host \<Rightarrow> host outcome" where
  "Host_socket_data env d h =
     (case d of
        Unparseable raw \<Rightarrow> Thrown (SyntaxError raw) h
      | JsonNull \<Rightarrow> Thrown (TypeError ''cannot read type of null'') h
      | Envelope decoded \<Rightarrow>
          (case decoded of
             RoomCreated room \<Rightarrow>
               (case ManagedPromise_resolve (second_resolve env) room (roomCreated h) of
                  Inl e \<Rightarrow> Thrown e h
                | Inr p \<Rightarrow> Done (h\<lparr>roomCreated := p\<rparr>))
           | GuestRequest offer client \<Rightarrow> Done (registerGuest offer client h)
           | RequestAccepted \<Rightarrow> Done h
           | _ \<Rightarrow> Thrown (UnknownEvent decoded) h))"

definition closeRoom :: "host \<Rightarrow> host outcome" where
  "closeRoom h =
     (case socket h of
        None \<Rightarrow> Thrown (TypeError ''socket is undefined'') h
      | Some k \<Rightarrow> Done (h\<lparr>socket := Some (k\<lparr>socket_destroyed := True\<rparr>)\<rparr>))"

definition listenForGuests :: "callback \<Rightarrow> host \<Rightarrow> host" where
  "listenForGuests cb h = h\<lparr>guestJoinedCallback := Some cb\<rparr>"

text \<open>The three listeners of \<open>registerGuest\<close> (lines 75 to 89), for the peer at \<open>p\<close>.\<close>

definition Host_peer_signal :: "signal \<Rightarrow> string \<Rightarrow> host \<Rightarrow> host outcome" where
  "Host_peer_signal answer client h = socket_send (AddToRoomRequest answer client) h"

definition Host_peer_data :: "string \<Rightarrow> unit \<Rightarrow> host \<Rightarrow> host outcome" where
  "Host_peer_data decoded u h =
     (case onMessageReceived h of
        None \<Rightarrow> Thrown (TypeError ''onMessageReceived is not a function'') h
      | Some cb \<Rightarrow> Done (h\<lparr>calls := calls h @ [MessageReceived cb decoded]\<rparr>))"

definition Host_peer_connect :: "nat \<Rightarrow> string \<Rightarrow> host \<Rightarrow> host outcome" where
  "Host_peer_connect p client h =
     (let h1 = h\<lparr>connections := Map_set client p (connections h)\<rparr> in
      case guestJoinedCallback h1 of
        None \<Rightarrow> Thrown (TypeError ''guestJoinedCallback is not a function'') h1
      | Some cb \<Rightarrow>
          (let h2 = h1\<lparr>calls := calls h1 @ [GuestJoined cb client]\<rparr> in
           Done (h2\<lparr>peers := (peers h2)[p := (peers h2 ! p)\<lparr>on_data := on_data (peers h2 ! p) @ [()]\<rparr>]\<rparr>)))"

text \<open>
  \<open>sendToAll\<close>: \<open>forEach\<close> visits the entries in insertion order; a \<open>send\<close> that
  throws ends the loop with the earlier sends done.
\<close>

definition peer_send :: "string \<Rightarrow> nat \<Rightarrow> ('s, 'c, 'd) Instance list \<Rightarrow> error + ('s, 'c, 'd) Instance list" where
  "peer_send chunk p ps =
     (if p < length ps then
        (case Peer_send chunk (ps ! p) of
           Inl e \<Rightarrow> Inl e
         | Inr q \<Rightarrow> Inr (ps[p := q]))
      else Inl (TypeError ''peer is undefined''))"

fun forEach_send :: "string \<Rightarrow> (string \<times> nat) list \<Rightarrow> host \<Rightarrow> host outcome" where
  "forEach_send chunk [] h = Done h"
| "forEach_send chunk ((client, p) # kvs) h =
     (case peer_send chunk p (peers h) of
        Inl e \<Rightarrow> Thrown e h
      | Inr ps \<Rightarrow> forEach_send chunk kvs (h\<lparr>peers := ps\<rparr>))"

definition sendToAll :: "'m env \<Rightarrow> 'm \<Rightarrow> host \<Rightarrow> host outcome" where
  "sendToAll env message h = forEach_send (stringify env message) (connections h) h"

definition sendTo :: "'m env \<Rightarrow> string \<Rightarrow> 'm \<Rightarrow> host \<Rightarrow> host outcome" where
  "sendTo env clientId message h =
     (if \<not> Map_has clientId (connections h) then
        Thrown (Error (''Cannot send message to unregisted client: '' @ clientId)) h
      else
        (case Map_get clientId (connections h) of
           None \<Rightarrow> Thrown (TypeError ''peer is undefined'') h
         | Some p \<Rightarrow>
             (case peer_send (stringify env message) p (peers h) of
                Inl e \<Rightarrow> Thrown e h
              | Inr ps \<Rightarrow> Done (h\<lparr>peers := ps\<rparr>))))"

text \<open>
  One step of a Host: a call of its public surface or an event of a transport.  A relay
  event before \<open>createRoom\<close> and an event of a peer that was never created have no
  listener and do nothing.  A peer's \<open>connect\<close> is recorded on the peer before its
  listeners run.
\<close>

datatype 'm host_event =
    CreateRoom
  | CloseRoom
  | ListenForGuests callback
  | HostListenForMessages callback
  | SendToAll 'm
  | SendTo string 'm
  | HostTransport transport_event

definition host_transport :: "'m env \<Rightarrow> transport_event \<Rightarrow> host \<Rightarrow> host outcome" where
  "host_transport env ev h =
     (case ev of
        SocketConnect \<Rightarrow> (if socket h = None then Done h else Host_socket_connect h)
      | SocketData d \<Rightarrow> (if socket h = None then Done h else Host_socket_data env d h)
      | PeerSignal p sig \<Rightarrow>
          (if p < length (peers h) then emit (Host_peer_signal sig) (on_signal (peers h ! p)) h
           else Done h)
      | PeerConnect p \<Rightarrow>
          (if p < length (peers h) then
             emit (Host_peer_connect p) (on_connect (peers h ! p))
               (h\<lparr>peers := (peers h)[p := (peers h ! p)\<lparr>connected := True\<rparr>]\<rparr>)
           else Done h)
      | PeerData p d \<Rightarrow>
          (if p < length (peers h) then emit (Host_peer_data d) (on_data (peers h ! p)) h
           else Done h))"

definition host_step :: "'m env \<Rightarrow> host \<Rightarrow> 'm host_event \<Rightarrow> host outcome" where
  "host_step env h e =
     (case e of
        CreateRoom \<Rightarrow> Done (createRoom h)
      | CloseRoom \<Rightarrow> closeRoom h
      | ListenForGuests cb \<Rightarrow> Done (listenForGuests cb h)
      | HostListenForMessages cb \<Rightarrow> Done (listenForMessages cb h)
      | SendToAll m \<Rightarrow> sendToAll env m h
      | SendTo c m \<Rightarrow> sendTo env c m h
      | HostTransport ev \<Rightarrow> host_transport env ev h)"

definition host_run :: "'m env \<Rightarrow> host \<Rightarrow> 'm host_event list \<Rightarrow> host" where
  "host_run env h es = foldl (\<lambda>s e. state_of (host_step env s e)) h es"

subsection \<open>Client\<close>

text \<open>
  The listeners of the client's peer: the \<open>signal\<close> closure of \<open>joinRoom\<close> captures
  \<open>room\<close>, the \<open>connect\<close> closure captures the \<open>resolve\<close> of its Timed Awaitable (the
  position of the awaitable in \<open>joins\<close>), and the \<open>data\<close> listener is the value that
  \<open>this.onMessageReceived\<close> had when it was attached.  \<open>answer_waiters\<close> counts the
  \<open>then\<close> continuations waiting on \<open>roomJoined\<close>; \<open>now\<close> is the time in milliseconds.
\<close>

type_synonym client_peer = "(string, nat, callback option) Instance"

record client = "client_peer session" +
  peer :: "nat option"
  roomJoined :: "string promise"
  answer_waiters :: nat
  joins :: "timed list"
  now :: nat

definition Client_new :: "string \<Rightarrow> client" where
  "Client_new server =
     \<lparr>socket = Some (Socket_new server), onMessageReceived = None, peers = [], calls = [],
      peer = None, roomJoined = ManagedPromise_new, answer_waiters = 0, joins = [], now = 0\<rparr>"

text \<open>\<open>this.peer.signal(answer)\<close>, the continuation of line 160.\<close>

definition apply_answer :: "string \<Rightarrow> client \<Rightarrow> client" where
  "apply_answer answer c =
     (case peer c of
        None \<Rightarrow> c
      | Some p \<Rightarrow>
          (if p < length (peers c) then c\<lparr>peers := (peers c)[p := Peer_signal answer (peers c ! p)]\<rparr>
           else c))"

text \<open>
  The listener of \<open>registerEvents\<close> (lines 127 to 138).  The continuations waiting on
  \<open>roomJoined\<close> run once, right after the handler that resolves it.
\<close>

definition Client_socket_data :: "'m env \<Rightarrow> relay_data \<Rightarrow> client \<Rightarrow> client outcome" where
  "Client_socket_data env d c =
     (case d of
        Unparseable raw \<Rightarrow> Thrown (SyntaxError raw) c
      | JsonNull \<Rightarrow> Thrown (TypeError ''cannot read type of null'') c
      | Envelope decoded \<Rightarrow>
          (case decoded of
             RoomJoined answer \<Rightarrow>
               (case ManagedPromise_resolve (second_resolve env) answer (roomJoined c) of
                  Inl e \<Rightarrow> Thrown e c
                | Inr p \<Rightarrow>
                    (if roomJoined c = Pending then
                       Done (((apply_answer answer ^^ answer_waiters c) (c\<lparr>roomJoined := p\<rparr>))
                               \<lparr>answer_waiters := 0\<rparr>)
                     else Done (c\<lparr>roomJoined := p\<rparr>)))
           | RequestAccepted \<Rightarrow> Done c
           | _ \<Rightarrow> Thrown (UnknownEvent decoded) c))"

definition leaveRoom :: "client \<Rightarrow> client outcome" where
  "leaveRoom c =
     (case peer c of
        None \<Rightarrow> Thrown (TypeError ''peer is undefined'') c
      | Some p \<Rightarrow>
          (if p < length (peers c) then Done (c\<lparr>peers := (peers c)[p := (peers c ! p)\<lparr>destroyed := True\<rparr>]\<rparr>)
           else Thrown (TypeError ''peer is undefined'') c))"

text \<open>
  \<open>joinRoom\<close> returns the position of its Timed Awaitable in \<open>joins\<close>.  A
  \<open>roomJoined\<close> that is already resolved runs the new continuation right after the
  call.
\<close>

definition joinRoom :: "string \<Rightarrow> client \<Rightarrow> client \<times> nat" where
  "joinRoom room c =
     (let p = length (peers c);
          k = length (joins c);
          newPeer = Peer_new True False;
          newPeer = newPeer\<lparr>on_signal := on_signal newPeer @ [room]\<rparr>;
          newPeer = newPeer\<lparr>on_connect := on_connect newPeer @ [k]\<rparr>;
          c1 = c\<lparr>peers := peers c @ [newPeer], peer := Some p\<rparr>;
          c2 = c1\<lparr>joins := joins c1 @ [TimedPromise (30 * 1000) (now c1)]\<rparr>;
          c3 = (case roomJoined c2 of
                  Resolved answer \<Rightarrow> apply_answer answer c2
                | _ \<Rightarrow> c2\<lparr>answer_waiters := answer_waiters c2 + 1\<rparr>)
      in (c3, k))"

definition send :: "'m env \<Rightarrow> 'm \<Rightarrow> client \<Rightarrow> client outcome" where
  "send env message c =
     (case peer c of
        None \<Rightarrow> Thrown (TypeError ''peer is undefined'') c
      | Some p \<Rightarrow>
          (case peer_send (stringify env message) p (peers c) of
             Inl e \<Rightarrow> Thrown e c
           | Inr ps \<Rightarrow> Done (c\<lparr>peers := ps\<rparr>)))"

text \<open>The listeners of \<open>joinRoom\<close> (lines 151 to 157 and 165 to 169).\<close>

definition Client_peer_signal :: "signal \<Rightarrow> string \<Rightarrow> client \<Rightarrow> client outcome" where
  "Client_peer_signal offer room c = socket_send (JoinRoomRequest offer room) c"

definition Client_peer_connect :: "'m env \<Rightarrow> nat \<Rightarrow> client \<Rightarrow> client outcome" where
  "Client_peer_connect env k c =
     (case peer c of
        None \<Rightarrow> Thrown (TypeError ''peer is undefined'') c
      | Some p \<Rightarrow>
          (if \<not> p < length (peers c) then Thrown (TypeError ''peer is undefined'') c
           else if rejects_non_function env \<and> onMessageReceived c = None then
             Thrown (TypeError ''The listener argument must be of type function'') c
           else
             (let c1 = c\<lparr>peers := (peers c)[p := (peers c ! p)
                            \<lparr>on_data := on_data (peers c ! p) @ [onMessageReceived c]\<rparr>]\<rparr>
              in if k < length (joins c1) then Done (c1\<lparr>joins := (joins c1)[k := timed_resolve (joins c1 ! k)]\<rparr>)
                 else Done c1)))"

definition Client_peer_data :: "string \<Rightarrow> callback option \<Rightarrow> client \<Rightarrow> client outcome" where
  "Client_peer_data d listener c =
     (case listener of
        None \<Rightarrow> Thrown (TypeError ''listener is not a function'') c
      | Some cb \<Rightarrow> Done (c\<lparr>calls := calls c @ [MessageReceived cb d]\<rparr>))"

datatype 'm client_event =
    JoinRoom string
  | LeaveRoom
  | ClientListenForMessages callback
  | Send 'm
  | ClientTransport transport_event
  | Elapse nat

definition client_transport :: "'m env \<Rightarrow> transport_event \<Rightarrow> client \<Rightarrow> client outcome" where
  "client_transport env ev c =
     (case ev of
        SocketConnect \<Rightarrow> Done c
      | SocketData d \<Rightarrow> (if socket c = None then Done c else Client_socket_data env d c)
      | PeerSignal p sig \<Rightarrow>
          (if p < length (peers c) then emit (Client_peer_signal sig) (on_signal (peers c ! p)) c
           else Done c)
      | PeerConnect p \<Rightarrow>
          (if p < length (peers c) then
             emit (Client_peer_connect env) (on_connect (peers c ! p))
               (c\<lparr>peers := (peers c)[p := (peers c ! p)\<lparr>connected := True\<rparr>]\<rparr>)
           else Done c)
      | PeerData p d \<Rightarrow>
          (if p < length (peers c) then emit (Client_peer_data d) (on_data (peers c ! p)) c
           else Done c))"

text \<open>
  \<open>Elapse d\<close>: \<open>d\<close> milliseconds pass with no other event; the timers that run out
  reject their awaitables.
\<close>

definition elapse :: "'m env \<Rightarrow> nat \<Rightarrow> client \<Rightarrow> client" where
  "elapse env d c =
     c\<lparr>now := now c + d, joins := map (timed_elapse (timer_wins_tie env) (now c + d)) (joins c)\<rparr>"

definition client_step :: "'m env \<Rightarrow> client \<Rightarrow> 'm client_event \<Rightarrow> client outcome" where
  "client_step env c e =
     (case e of
        JoinRoom room \<Rightarrow> Done (fst (joinRoom room c))
      | LeaveRoom \<Rightarrow> leaveRoom c
      | ClientListenForMessages cb \<Rightarrow> Done (listenForMessages cb c)
      | Send m \<Rightarrow> send env m c
      | ClientTransport ev \<Rightarrow> client_transport env ev c
      | Elapse d \<Rightarrow> Done (elapse env d c))"

definition client_run :: "'m env \<Rightarrow> client \<Rightarrow> 'm client_event list \<Rightarrow> client" where
  "client_run env c es = foldl (\<lambda>s e. state_of (client_step env s e)) c es"

section \<open>Vocabulary of the statements\<close>

text \<open>
  An environment for the worked examples: application messages are plain strings that
  \<open>JSON.stringify\<close> puts between double quotes, a second \<open>resolve\<close> does nothing and
  the event emitter rejects a listener that is not a function.
\<close>

definition plain_env :: "string env" where
  "plain_env =
     \<lparr>stringify = (\<lambda>m. CHR 0x22 # m @ [CHR 0x22]), second_resolve = NoOp,
      timer_wins_tie = True, rejects_non_function = True\<rparr>"

text \<open>The kinds each role's \<open>switch\<close> has a \<open>case\<close> for.\<close>

definition host_kind :: "signal_response \<Rightarrow> bool" where
  "host_kind decoded =
     (case decoded of
        RoomCreated room \<Rightarrow> True
      | GuestRequest offer client \<Rightarrow> True
      | RequestAccepted \<Rightarrow> True
      | _ \<Rightarrow> False)"

definition client_kind :: "signal_response \<Rightarrow> bool" where
  "client_kind decoded =
     (case decoded of RoomJoined answer \<Rightarrow> True | RequestAccepted \<Rightarrow> True | _ \<Rightarrow> False)"

text \<open>
  The Client's session is connected when \<open>this.peer\<close> is a peer whose \<open>connect\<close> has
  fired and that was not destroyed.
\<close>

definition Connected :: "client \<Rightarrow> bool" where
  "Connected c =
     (case peer c of
        None \<Rightarrow> False
      | Some p \<Rightarrow> p < length (peers c) \<and> connected (peers c ! p) \<and> \<not> destroyed (peers c ! p))"

text \<open>The room of the first RoomCreated envelope among the events.\<close>

fun first_room :: "'m host_event list \<Rightarrow> string option" where
  "first_room [] = None"
| "first_room (HostTransport (SocketData (Envelope (RoomCreated room))) # es) = Some room"
| "first_room (e # es) = first_room es"

text \<open>
  A callback is bound when some peer of the store has it among its \<open>data\<close>
  listeners; \<open>calls_to cb\<close> keeps the message deliveries made to \<open>cb\<close>.
\<close>

definition bound_listener :: "callback \<Rightarrow> client \<Rightarrow> bool" where
  "bound_listener cb c = (\<exists>q \<in> set (peers c). Some cb \<in> set (on_data q))"

fun is_connect :: "'m client_event \<Rightarrow> bool" where
  "is_connect (ClientTransport (PeerConnect p)) = True"
| "is_connect e = False"

definition calls_to :: "callback \<Rightarrow> call list \<Rightarrow> call list" where
  "calls_to cb cs = filter (\<lambda>x. case x of MessageReceived f d \<Rightarrow> f = cb | _ \<Rightarrow> False) cs"

text \<open>The client identifiers of the GuestRequest envelopes among the events, in order.\<close>

fun guest_requests :: "'m host_event list \<Rightarrow> string list" where
  "guest_requests [] = []"
| "guest_requests (HostTransport (SocketData (Envelope (GuestRequest offer client))) # es) =
     client # guest_requests es"
| "guest_requests (e # es) = guest_requests es"

text \<open>
  What a guest's handshake has reached: the parts of a peer that only \<open>registerGuest\<close>
  and the \<open>connect\<close> listener write.  The invariants of the Host's store and
  registry follow; \<open>changes_handshakes\<close> marks the two events that write them.
\<close>

definition view :: "host_peer \<Rightarrow> string list \<times> unit list \<times> bool \<times> bool" where
  "view q = (on_connect q, on_data q, connected q, destroyed q)"

definition inv_shape :: "host \<Rightarrow> bool" where
  "inv_shape h =
     (\<forall>p<length (peers h). (\<exists>c. on_connect (peers h ! p) = [c]) \<and> \<not> destroyed (peers h ! p))"

definition inv_data :: "host \<Rightarrow> bool" where
  "inv_data h = (\<forall>p<length (peers h). on_data (peers h ! p) \<noteq> [] \<longrightarrow> connected (peers h ! p))"

definition inv_reg :: "host \<Rightarrow> bool" where
  "inv_reg h =
     (\<forall>(c, p) \<in> set (connections h).
        p < length (peers h) \<and> connected (peers h ! p) \<and> on_connect (peers h ! p) = [c])"

definition inv_calls :: "host \<Rightarrow> bool" where
  "inv_calls h =
     (\<forall>cb c. GuestJoined cb c \<in> set (calls h) \<longrightarrow>
        (\<exists>p<length (peers h). connected (peers h ! p) \<and> on_connect (peers h ! p) = [c]))"

definition inv_keys :: "host \<Rightarrow> bool" where
  "inv_keys h =
     (distinct (map fst (connections h))
      \<and> (\<forall>p<length (peers h). connected (peers h ! p) \<longrightarrow>
            (\<forall>c. on_connect (peers h ! p) = [c] \<longrightarrow> c \<in> fst ` set (connections h))))"

definition handshake_inv :: "host \<Rightarrow> bool" where
  "handshake_inv h = (inv_shape h \<and> inv_data h \<and> inv_reg h \<and> inv_keys h)"

fun changes_handshakes :: "'m host_event \<Rightarrow> bool" where
  "changes_handshakes (HostTransport (SocketData (Envelope (GuestRequest offer client)))) = True"
| "changes_handshakes (HostTransport (PeerConnect p)) = True"
| "changes_handshakes e = False"

text \<open>
  The bookkeeping of the Client's awaitables.  \<open>wfc\<close>: every \<open>connect\<close> listener
  resolves an awaitable that exists and \<open>this.peer\<close> is a peer of the store.
  \<open>tracked p k D\<close>: the peer at \<open>p\<close> holds the one listener that resolves the
  awaitable at \<open>k\<close>, whose deadline is \<open>D\<close>.  \<open>status D tie t\<close>: what an
  awaitable with deadline \<open>D\<close> is at time \<open>t\<close> while nothing has resolved it.
  \<open>connect_rel ls s0 s\<close>: what the \<open>connect\<close> listeners \<open>ls\<close> may have changed
  between \<open>s0\<close> and \<open>s\<close>.  \<open>changes_joins\<close> marks the events that write
  \<open>joins\<close>.
\<close>

definition wfc :: "client \<Rightarrow> bool" where
  "wfc s =
     (let ocs = map on_connect (peers s) in
      (\<forall>q<length ocs. \<forall>j \<in> set (ocs ! q). j < length (joins s))
      \<and> (\<forall>q. peer s = Some q \<longrightarrow> q < length ocs))"

definition tracked :: "nat \<Rightarrow> nat \<Rightarrow> nat \<Rightarrow> client \<Rightarrow> bool" where
  "tracked p k D s =
     (let ocs = map on_connect (peers s) in
      p < length ocs \<and> ocs ! p = [k]
      \<and> (\<forall>q<length ocs. \<forall>j \<in> set (ocs ! q). j < length (joins s) \<and> (j = k \<longrightarrow> q = p))
      \<and> deadline (joins s ! k) = D
      \<and> (\<exists>q. peer s = Some q \<and> q < length ocs))"

definition status :: "nat \<Rightarrow> bool \<Rightarrow> nat \<Rightarrow> unit promise" where
  "status D tie t = (if D < t \<or> (D = t \<and> tie) then Rejected Timeout else Pending)"

definition connect_rel :: "nat list \<Rightarrow> client \<Rightarrow> client \<Rightarrow> bool" where
  "connect_rel ls s0 s =
     (map on_connect (peers s) = map on_connect (peers s0) \<and> now s = now s0 \<and> peer s = peer s0
      \<and> length (joins s) = length (joins s0)
      \<and> (\<forall>i<length (joins s0). deadline (joins s ! i) = deadline (joins s0 ! i)
            \<and> (settled (joins s ! i) = settled (joins s0 ! i)
                \<or> (i \<in> set ls \<and> settled (joins s0 ! i) = Pending
                    \<and> settled (joins s ! i) = Resolved ()))))"

fun changes_joins :: "'m client_event \<Rightarrow> bool" where
  "changes_joins (ClientTransport (PeerConnect p)) = True"
| "changes_joins (JoinRoom room) = True"
| "changes_joins (Elapse d) = True"
| "changes_joins e = False"

text \<open>The unfoldings that evaluate a run on concrete events.\<close>

lemmas host_eval = host_run_def host_step_def host_transport_def Host_new_def createRoom_def
  Host_socket_data_def Host_socket_connect_def registerGuest_def Host_peer_connect_def
  Host_peer_signal_def Host_peer_data_def listenForGuests_def listenForMessages_def
  socket_send_def Socket_send_def Peer_new_def Peer_signal_def Socket_new_def
  ManagedPromise_new_def ManagedPromise_resolve_def Let_def plain_env_def

lemmas client_eval = client_run_def client_step_def client_transport_def Client_new_def
  joinRoom_def listenForMessages_def Client_peer_connect_def Client_peer_data_def
  Client_peer_signal_def Client_socket_data_def apply_answer_def elapse_def timed_elapse_def
  socket_send_def Socket_send_def Peer_new_def Peer_signal_def TimedPromise_def
  timed_resolve_def Socket_new_def ManagedPromise_new_def ManagedPromise_resolve_def Let_def
  plain_env_def

section \<open>Properties\<close>

subsection \<open>Single handlers\<close>

text \<open>
  C7.  A RequestAccepted envelope changes nothing, on the Host and on the Client: the
  handler returns normally with the state it was given, so the registry, the pending
  futures, the callbacks and the socket's outbox (no reply) are as before.
\<close>

theorem RequestAccepted_changes_nothing:
  "Host_socket_data env (Envelope RequestAccepted) h = Done h
   \<and> host_step env h (HostTransport (SocketData (Envelope RequestAccepted))) = Done h
   \<and> Client_socket_data env' (Envelope RequestAccepted) c = Done c
   \<and> client_step env' c (ClientTransport (SocketData (Envelope RequestAccepted))) = Done c"
  by (simp add: Host_socket_data_def Client_socket_data_def host_step_def client_step_def
      host_transport_def client_transport_def)

text \<open>
  C6.  \<open>sendTo\<close> with a client identifier that is not a key of the registry throws the
  error to its caller and returns the state it was given: nothing is sent on any peer
  and the registry is unchanged.
\<close>

theorem sendTo_unregistered_client:
  assumes "clientId \<notin> fst ` set (connections h)"
  shows "sendTo env clientId message h =
           Thrown (Error (''Cannot send message to unregisted client: '' @ clientId)) h
       \<and> host_step env h (SendTo clientId message) =
           Thrown (Error (''Cannot send message to unregisted client: '' @ clientId)) h"
  using assms by (simp add: sendTo_def Map_has_def host_step_def)

theorem sendTo_unregistered_client_witness:
  "''unregistered-id'' \<notin> fst ` set (connections (host_run plain_env (Host_new ''wss://relay'')
          [CreateRoom, ListenForGuests 1,
           HostTransport (SocketData (Envelope (GuestRequest ''O1'' ''guest1''))),
           HostTransport (PeerConnect 0)]))
   \<and> connections (host_run plain_env (Host_new ''wss://relay'')
          [CreateRoom, ListenForGuests 1,
           HostTransport (SocketData (Envelope (GuestRequest ''O1'' ''guest1''))),
           HostTransport (PeerConnect 0)]) = [(''guest1'', 0)]
   \<and> thrown (sendTo plain_env ''unregistered-id'' ''hi'' (host_run plain_env (Host_new ''wss://relay'')
          [CreateRoom, ListenForGuests 1,
           HostTransport (SocketData (Envelope (GuestRequest ''O1'' ''guest1''))),
           HostTransport (PeerConnect 0)]))
       = Some (Error ''Cannot send message to unregisted client: unregistered-id'')"
proof -
  let ?h = "host_run plain_env (Host_new ''wss://relay'')
          [CreateRoom, ListenForGuests 1,
           HostTransport (SocketData (Envelope (GuestRequest ''O1'' ''guest1''))),
           HostTransport (PeerConnect 0)]"
  have c: "connections ?h = [(''guest1'', 0)]"
    by (simp add: host_run_def host_step_def host_transport_def Host_new_def createRoom_def
        Host_socket_data_def registerGuest_def Host_peer_connect_def Peer_new_def Peer_signal_def
        listenForGuests_def Socket_new_def ManagedPromise_new_def Let_def)
  have a: "''unregistered-id'' \<notin> fst ` set (connections ?h)"
    unfolding c by simp
  show ?thesis
    using sendTo_unregistered_client [OF a, of plain_env "''hi''"] a c by simp
qed

text \<open>
  C8.  \<open>closeRoom\<close> touches the socket only: the state it leaves is the state it was
  given with the socket marked destroyed, so the registry and every peer of the store
  are unchanged.  It throws exactly when no socket was ever opened.
\<close>

theorem closeRoom_destroys_socket_only:
  "state_of (closeRoom h) =
      h\<lparr>socket := map_option (\<lambda>k. k\<lparr>socket_destroyed := True\<rparr>) (socket h)\<rparr>
   \<and> connections (state_of (closeRoom h)) = connections h
   \<and> peers (state_of (closeRoom h)) = peers h
   \<and> (thrown (closeRoom h) = None) = (socket h \<noteq> None)
   \<and> host_step env h CloseRoom = closeRoom h"
  by (cases "socket h") (simp_all add: closeRoom_def host_step_def)

text \<open>
  C3.  An envelope whose kind the role's \<open>switch\<close> has no \<open>case\<close> for makes the
  handler throw the error that carries the decoded payload, with the state untouched:
  it is neither ignored nor answered with a default.
\<close>

theorem unhandled_kind_throws:
  "(\<not> host_kind decoded \<longrightarrow>
      Host_socket_data env (Envelope decoded) h = Thrown (UnknownEvent decoded) h)
   \<and> (\<not> client_kind decoded \<longrightarrow>
      Client_socket_data env' (Envelope decoded) c = Thrown (UnknownEvent decoded) c)"
  by (cases decoded)
    (simp_all add: host_kind_def client_kind_def Host_socket_data_def Client_socket_data_def)

theorem unhandled_kind_throws_witness:
  "\<not> host_kind (RoomJoined ''A1'')
   \<and> host_step plain_env (createRoom (Host_new ''wss://relay''))
        (HostTransport (SocketData (Envelope (RoomJoined ''A1''))))
       = Thrown (UnknownEvent (RoomJoined ''A1'')) (createRoom (Host_new ''wss://relay''))
   \<and> \<not> client_kind (Unrecognized ''{}'')
   \<and> client_step plain_env (Client_new ''wss://relay'')
        (ClientTransport (SocketData (Envelope (Unrecognized ''{}''))))
       = Thrown (UnknownEvent (Unrecognized ''{}'')) (Client_new ''wss://relay'')"
  using unhandled_kind_throws [of "RoomJoined ''A1''" plain_env
      "createRoom (Host_new ''wss://relay'')" plain_env "Client_new ''wss://relay''"]
    unhandled_kind_throws [of "Unrecognized ''{}''" plain_env
      "createRoom (Host_new ''wss://relay'')" plain_env "Client_new ''wss://relay''"]
  by (simp add: host_kind_def client_kind_def host_step_def client_step_def host_transport_def
      client_transport_def createRoom_def Client_new_def Host_new_def)

text \<open>
  C9.  \<open>send\<close> before the session is connected throws to its caller and leaves the
  state as it was; before \<open>joinRoom\<close> has made the peer, the throw is the TypeError of
  reading \<open>this.peer\<close>.  On a connected session \<open>send\<close> returns normally, with the
  serialized message sent on the peer.
\<close>

theorem send_needs_connected:
  "(peer c = None \<longrightarrow> send env message c = Thrown (TypeError ''peer is undefined'') c)
   \<and> (\<not> Connected c \<longrightarrow> (\<exists>e. send env message c = Thrown e c))
   \<and> (Connected c \<longrightarrow> (\<exists>p. peer c = Some p \<and> send env message c =
         Done (c\<lparr>peers := (peers c)[p := (peers c ! p)
                  \<lparr>sent := sent (peers c ! p) @ [stringify env message]\<rparr>]\<rparr>)))"
  by (cases "peer c") (auto simp: send_def Connected_def peer_send_def Peer_send_def)

theorem send_needs_connected_witness:
  "send plain_env ''hi'' (Client_new ''wss://relay'')
      = Thrown (TypeError ''peer is undefined'') (Client_new ''wss://relay'')
   \<and> \<not> Connected (client_run plain_env (Client_new ''wss://relay'')
          [ClientListenForMessages 7, JoinRoom ''ABC123''])
   \<and> thrown (send plain_env ''hi'' (client_run plain_env (Client_new ''wss://relay'')
          [ClientListenForMessages 7, JoinRoom ''ABC123''])) \<noteq> None
   \<and> Connected (client_run plain_env (Client_new ''wss://relay'')
          [ClientListenForMessages 7, JoinRoom ''ABC123'', ClientTransport (PeerConnect 0)])
   \<and> thrown (send plain_env ''hi'' (client_run plain_env (Client_new ''wss://relay'')
          [ClientListenForMessages 7, JoinRoom ''ABC123'', ClientTransport (PeerConnect 0)])) = None"
proof -
  let ?c0 = "Client_new ''wss://relay''"
  let ?c1 = "client_run plain_env ?c0 [ClientListenForMessages 7, JoinRoom ''ABC123'']"
  let ?c2 = "client_run plain_env ?c0
      [ClientListenForMessages 7, JoinRoom ''ABC123'', ClientTransport (PeerConnect 0)]"
  have p0: "peer ?c0 = None" by (simp add: Client_new_def)
  have n1: "\<not> Connected ?c1" by (simp add: Connected_def client_eval)
  have y2: "Connected ?c2" by (simp add: Connected_def client_eval)
  from send_needs_connected [of ?c0 plain_env "''hi''"] p0
  have a: "send plain_env ''hi'' ?c0 = Thrown (TypeError ''peer is undefined'') ?c0" by blast
  from send_needs_connected [of ?c1 plain_env "''hi''"] n1
  obtain e where "send plain_env ''hi'' ?c1 = Thrown e ?c1" by blast
  then have b: "thrown (send plain_env ''hi'' ?c1) \<noteq> None" by simp
  from send_needs_connected [of ?c2 plain_env "''hi''"] y2
  obtain c' where "send plain_env ''hi'' ?c2 = Done c'" by blast
  then have c: "thrown (send plain_env ''hi'' ?c2) = None" by simp
  show ?thesis using a b c n1 y2 by blast
qed

subsection \<open>The room-created future\<close>

lemma emit_preserves:
  assumes "\<And>l s. P s \<Longrightarrow> P (state_of (f l s))" and "P s"
  shows "P (state_of (emit f ls s))"
  using assms(2)
proof (induction ls arbitrary: s)
  case Nil
  then show ?case by simp
next
  case (Cons l ls)
  from assms(1) [OF Cons.prems, of l] show ?case
    by (cases "f l s") (simp_all add: Cons.IH)
qed

lemma forEach_send_frame:
  "roomCreated (state_of (forEach_send chunk kvs h)) = roomCreated h
   \<and> socket (state_of (forEach_send chunk kvs h)) = socket h"
  by (induction chunk kvs h rule: forEach_send.induct) (auto split: sum.splits)

lemma socket_send_roomCreated:
  "roomCreated (state_of (socket_send r (h::host))) = roomCreated h"
  by (simp add: socket_send_def split: option.splits sum.splits)

lemma socket_send_socket:
  "socket s \<noteq> None \<Longrightarrow> socket (state_of (socket_send r s)) \<noteq> None"
  by (simp add: socket_send_def split: option.splits sum.splits)

lemma Host_peer_connect_frame:
  "roomCreated (state_of (Host_peer_connect p client h)) = roomCreated h
   \<and> socket (state_of (Host_peer_connect p client h)) = socket h"
  by (simp add: Host_peer_connect_def Let_def split: option.splits)

lemma Host_peer_data_frame:
  "roomCreated (state_of (Host_peer_data d u h)) = roomCreated h
   \<and> socket (state_of (Host_peer_data d u h)) = socket h"
  by (simp add: Host_peer_data_def split: option.splits)

lemma host_transport_peer_roomCreated:
  assumes "\<And>d. ev \<noteq> SocketData d"
  shows "roomCreated (state_of (host_transport env ev h)) = roomCreated h"
proof (cases ev)
  case SocketConnect
  then show ?thesis
    by (simp add: host_transport_def Host_socket_connect_def socket_send_roomCreated)
next
  case (SocketData d)
  with assms show ?thesis by blast
next
  case (PeerSignal p sig)
  have "roomCreated (state_of (emit (Host_peer_signal sig) ls h)) = roomCreated h" for ls
    by (rule emit_preserves [where P = "\<lambda>s. roomCreated s = roomCreated h"])
      (simp_all add: Host_peer_signal_def socket_send_roomCreated)
  with PeerSignal show ?thesis by (simp add: host_transport_def)
next
  case (PeerConnect p)
  have "roomCreated (state_of (emit (Host_peer_connect p) ls s)) = roomCreated h"
    if "roomCreated s = roomCreated h" for ls s
    by (rule emit_preserves [where P = "\<lambda>s. roomCreated s = roomCreated h"])
      (simp_all add: Host_peer_connect_frame that)
  with PeerConnect show ?thesis by (simp add: host_transport_def)
next
  case (PeerData p d)
  have "roomCreated (state_of (emit (Host_peer_data d) ls h)) = roomCreated h" for ls
    by (rule emit_preserves [where P = "\<lambda>s. roomCreated s = roomCreated h"])
      (simp_all add: Host_peer_data_frame)
  with PeerData show ?thesis by (simp add: host_transport_def)
qed

lemma Host_socket_data_roomCreated:
  "roomCreated (state_of (Host_socket_data env d h)) =
     (case (d, roomCreated h) of
        (Envelope (RoomCreated room), Pending) \<Rightarrow> Resolved room
      | _ \<Rightarrow> roomCreated h)"
  by (cases d; cases "roomCreated h"; cases "second_resolve env")
    (auto simp: Host_socket_data_def ManagedPromise_resolve_def registerGuest_def Let_def
      split: signal_response.splits)

lemma host_step_socket:
  assumes "socket h \<noteq> None"
  shows "socket (state_of (host_step env h e)) \<noteq> None"
proof (cases e)
  case (HostTransport ev)
  show ?thesis
  proof (cases ev)
    case SocketConnect
    with HostTransport assms show ?thesis
      by (simp add: host_step_def host_transport_def Host_socket_connect_def socket_send_socket
          del: not_None_eq)
  next
    case (SocketData d)
    with HostTransport assms show ?thesis
      by (cases d)
        (auto simp: host_step_def host_transport_def Host_socket_data_def registerGuest_def
          Let_def split: signal_response.splits sum.splits)
  next
    case (PeerSignal p sig)
    have "socket (state_of (emit (Host_peer_signal sig) ls h)) \<noteq> None" for ls
      by (rule emit_preserves [where P = "\<lambda>s. socket s \<noteq> None"])
        (simp_all add: Host_peer_signal_def socket_send_socket assms del: not_None_eq)
    with HostTransport PeerSignal show ?thesis
      by (simp add: host_step_def host_transport_def assms del: not_None_eq)
  next
    case (PeerConnect p)
    have "socket (state_of (emit (Host_peer_connect p) ls s)) \<noteq> None" if "socket s \<noteq> None" for ls s
      by (rule emit_preserves [where P = "\<lambda>s. socket s \<noteq> None"])
        (simp_all add: Host_peer_connect_frame that del: not_None_eq)
    with HostTransport PeerConnect assms show ?thesis
      by (simp add: host_step_def host_transport_def del: not_None_eq)
  next
    case (PeerData p d)
    have "socket (state_of (emit (Host_peer_data d) ls h)) \<noteq> None" for ls
      by (rule emit_preserves [where P = "\<lambda>s. socket s \<noteq> None"])
        (simp_all add: Host_peer_data_frame assms del: not_None_eq)
    with HostTransport PeerData show ?thesis
      by (simp add: host_step_def host_transport_def assms del: not_None_eq)
  qed
qed (use assms in \<open>auto simp: host_step_def createRoom_def closeRoom_def listenForGuests_def
      listenForMessages_def sendToAll_def sendTo_def forEach_send_frame
      split: option.splits sum.splits\<close>)

lemma host_step_roomCreated:
  assumes "socket h \<noteq> None"
  shows "roomCreated (state_of (host_step env h e)) =
     (case roomCreated h of
        Pending \<Rightarrow> (case first_room [e] of None \<Rightarrow> Pending | Some room \<Rightarrow> Resolved room)
      | v \<Rightarrow> v)"
proof (cases e)
  case (HostTransport ev)
  show ?thesis
  proof (cases "\<exists>d. ev = SocketData d")
    case True
    then obtain d where d: "ev = SocketData d" by blast
    show ?thesis using assms unfolding HostTransport d
      by (cases d; cases "roomCreated h")
        (auto simp: host_step_def host_transport_def Host_socket_data_roomCreated
          split: signal_response.splits)
  next
    case False
    then have "roomCreated (state_of (host_transport env ev h)) = roomCreated h"
      by (intro host_transport_peer_roomCreated) blast
    moreover have "first_room [HostTransport ev :: 'a host_event] = None"
      using False by (cases ev) auto
    ultimately show ?thesis unfolding HostTransport
      by (simp add: host_step_def split: promise.splits)
  qed
qed (auto simp: host_step_def createRoom_def closeRoom_def listenForGuests_def
      listenForMessages_def sendToAll_def sendTo_def forEach_send_frame
      split: option.splits sum.splits promise.splits)

lemma first_room_Cons:
  "first_room (e # es) = (case first_room [e] of None \<Rightarrow> first_room es | Some room \<Rightarrow> Some room)"
  by (induction "e # es" rule: first_room.induct) auto

lemma host_run_Cons: "host_run env h (e # es) = host_run env (state_of (host_step env h e)) es"
  by (simp add: host_run_def)

lemma host_run_socket:
  "socket h \<noteq> None \<Longrightarrow> socket (host_run env h es) \<noteq> None"
proof (induction es arbitrary: h)
  case Nil
  then show ?case by (simp add: host_run_def)
next
  case (Cons e es)
  show ?case unfolding host_run_Cons
    by (rule Cons.IH) (rule host_step_socket [OF Cons.prems])
qed

lemma host_run_roomCreated:
  assumes "socket h \<noteq> None"
  shows "roomCreated (host_run env h es) =
     (case roomCreated h of
        Pending \<Rightarrow> (case first_room es of None \<Rightarrow> Pending | Some room \<Rightarrow> Resolved room)
      | v \<Rightarrow> v)"
  using assms
proof (induction es arbitrary: h)
  case Nil
  then show ?case by (simp add: host_run_def split: promise.splits)
next
  case (Cons e es)
  have s: "socket (state_of (host_step env h e)) \<noteq> None"
    by (rule host_step_socket [OF Cons.prems])
  show ?case
    unfolding host_run_Cons Cons.IH [OF s] host_step_roomCreated [OF Cons.prems]
    by (subst (2) first_room_Cons) (simp split: promise.splits option.splits)
qed

text \<open>
  C1.  On a Host that has opened its socket and whose \<open>roomCreated\<close> future is
  unresolved, as after \<open>createRoom\<close> on a new Host, whatever events follow: the
  promise \<open>createRoom\<close> returned is resolved with the room of the first RoomCreated
  envelope delivered, and is pending when there was none.  A further RoomCreated
  leaves a resolved value as it is.
\<close>

theorem createRoom_first_RoomCreated:
  assumes "socket h \<noteq> None" and "roomCreated h = Pending"
  shows "roomCreated (host_run env h es) =
           (case first_room es of None \<Rightarrow> Pending | Some room \<Rightarrow> Resolved room)
     \<and> (\<forall>room room'. roomCreated (host_run env h es) = Resolved room \<longrightarrow>
           roomCreated (host_run env h
              (es @ [HostTransport (SocketData (Envelope (RoomCreated room')))])) = Resolved room)"
proof (intro conjI allI impI)
  show "roomCreated (host_run env h es) =
           (case first_room es of None \<Rightarrow> Pending | Some room \<Rightarrow> Resolved room)"
    using host_run_roomCreated [OF assms(1), of env es] assms(2) by simp
next
  fix room room'
  assume r: "roomCreated (host_run env h es) = Resolved room"
  have "socket (host_run env h es) \<noteq> None"
    by (rule host_run_socket [OF assms(1)])
  from host_step_roomCreated [OF this, of env
      "HostTransport (SocketData (Envelope (RoomCreated room')))"] r
  show "roomCreated (host_run env h
          (es @ [HostTransport (SocketData (Envelope (RoomCreated room')))])) = Resolved room"
    by (simp add: host_run_def)
qed

theorem createRoom_first_RoomCreated_witness:
  "socket (createRoom (Host_new ''wss://relay'')) \<noteq> None
   \<and> roomCreated (createRoom (Host_new ''wss://relay'')) = Pending
   \<and> roomCreated (host_run plain_env (createRoom (Host_new ''wss://relay''))
        [HostTransport SocketConnect,
         HostTransport (SocketData (Envelope RequestAccepted)),
         HostTransport (SocketData (Envelope (RoomCreated ''ABC123''))),
         HostTransport (SocketData (Envelope (RoomCreated ''XYZ789'')))]) = Resolved ''ABC123''"
proof -
  have s: "socket (createRoom (Host_new ''wss://relay'')) \<noteq> None"
    by (simp add: createRoom_def)
  have p: "roomCreated (createRoom (Host_new ''wss://relay'')) = Pending"
    by (simp add: createRoom_def Host_new_def ManagedPromise_new_def)
  show ?thesis
    using createRoom_first_RoomCreated [OF s p, of plain_env
        "[HostTransport SocketConnect,
          HostTransport (SocketData (Envelope RequestAccepted)),
          HostTransport (SocketData (Envelope (RoomCreated ''ABC123''))),
          HostTransport (SocketData (Envelope (RoomCreated ''XYZ789'')))]"] s p
    by simp
qed

subsection \<open>Which callback receives a message\<close>

lemma map_update_same:
  assumes "\<And>x. g (f x) = g x"
  shows "map g (xs[k := f (xs ! k)]) = map g xs"
  by (cases "k < length xs") (simp_all add: map_update assms list_update_same_conv list_update_beyond)

lemma emit_Client_peer_data:
  "state_of (emit (Client_peer_data d) ls c) =
     c\<lparr>calls := calls c @ map (\<lambda>f. MessageReceived (the f) d) (takeWhile (\<lambda>f. f \<noteq> None) ls)\<rparr>"
proof (induction ls arbitrary: c)
  case Nil
  then show ?case by simp
next
  case (Cons l ls)
  then show ?case by (cases l) (simp_all add: Client_peer_data_def)
qed

lemma emit_Host_peer_data:
  assumes "onMessageReceived h = Some cb"
  shows "emit (Host_peer_data d) ls h =
     Done (h\<lparr>calls := calls h @ map (\<lambda>u. MessageReceived cb d) ls\<rparr>)"
  using assms
proof (induction ls arbitrary: h)
  case Nil
  then show ?case by simp
next
  case (Cons l ls)
  then show ?case by (simp add: Host_peer_data_def)
qed

lemma apply_answer_frame:
  "map on_data (peers (apply_answer a c)) = map on_data (peers c)
   \<and> calls (apply_answer a c) = calls c"
  by (simp add: apply_answer_def Peer_signal_def map_update list_update_same_conv
      split: option.splits)

lemma apply_answers_frame:
  "map on_data (peers ((apply_answer a ^^ n) c)) = map on_data (peers c)
   \<and> calls ((apply_answer a ^^ n) c) = calls c"
  by (induction n) (simp_all add: apply_answer_frame)

lemma Client_socket_data_frame:
  "map on_data (peers (state_of (Client_socket_data env d c))) = map on_data (peers c)
   \<and> calls (state_of (Client_socket_data env d c)) = calls c"
  by (cases d)
    (auto simp: Client_socket_data_def apply_answers_frame
      split: signal_response.splits sum.splits)

lemma socket_send_frame:
  "peers (state_of (socket_send r s)) = peers s \<and> calls (state_of (socket_send r s)) = calls s"
  by (simp add: socket_send_def split: option.splits sum.splits)

lemma emit_Client_peer_signal_frame:
  "peers (state_of (emit (Client_peer_signal sig) ls c)) = peers c
   \<and> calls (state_of (emit (Client_peer_signal sig) ls c)) = calls c"
  by (rule emit_preserves [where P = "\<lambda>s. peers s = peers c \<and> calls s = calls c"])
    (simp_all add: Client_peer_signal_def socket_send_frame)

lemma joinRoom_frame:
  "map on_data (peers (fst (joinRoom room c))) = map on_data (peers c) @ [[]]
   \<and> calls (fst (joinRoom room c)) = calls c"
  by (simp add: joinRoom_def Let_def Peer_new_def apply_answer_frame split: promise.splits)

lemma leaveRoom_frame:
  "map on_data (peers (state_of (leaveRoom c))) = map on_data (peers c)
   \<and> calls (state_of (leaveRoom c)) = calls c"
  by (simp add: leaveRoom_def map_update list_update_same_conv split: option.splits)

lemma send_frame:
  "map on_data (peers (state_of (send env m c))) = map on_data (peers c)
   \<and> calls (state_of (send env m c)) = calls c"
  by (auto simp: send_def peer_send_def Peer_send_def map_update list_update_same_conv
      split: option.splits sum.splits if_splits)

lemma client_step_listeners:
  assumes "\<not> is_connect e"
  shows "map on_data (peers (state_of (client_step env s e))) = map on_data (peers s)
       \<or> map on_data (peers (state_of (client_step env s e))) = map on_data (peers s) @ [[]]"
proof (cases e)
  case (ClientTransport ev)
  with assms show ?thesis
    by (cases ev)
      (simp_all add: client_step_def client_transport_def Client_socket_data_frame
        emit_Client_peer_signal_frame emit_Client_peer_data)
qed (simp_all add: client_step_def joinRoom_frame leaveRoom_frame send_frame
      listenForMessages_def elapse_def)

lemma client_step_calls:
  assumes "\<not> is_connect e"
  shows "calls (state_of (client_step env s e)) = calls s
       \<or> (\<exists>p d. e = ClientTransport (PeerData p d) \<and> p < length (peers s)
            \<and> calls (state_of (client_step env s e)) =
                calls s @ map (\<lambda>f. MessageReceived (the f) d)
                           (takeWhile (\<lambda>f. f \<noteq> None) (on_data (peers s ! p))))"
proof (cases e)
  case (ClientTransport ev)
  with assms show ?thesis
    by (cases ev)
      (simp_all add: client_step_def client_transport_def Client_socket_data_frame
        emit_Client_peer_signal_frame emit_Client_peer_data)
qed (simp_all add: client_step_def joinRoom_frame leaveRoom_frame send_frame
      listenForMessages_def elapse_def)

lemma calls_to_unbound:
  assumes "Some cb \<notin> set ls"
  shows "calls_to cb (map (\<lambda>f. MessageReceived (the f) d) (takeWhile (\<lambda>f. f \<noteq> None) ls)) = []"
  using assms
proof (induction ls)
  case Nil
  then show ?case by (simp add: calls_to_def)
next
  case (Cons a ls)
  then show ?case by (cases a) (auto simp: calls_to_def)
qed

lemma client_run_snoc:
  "client_run env c (es @ [e]) = state_of (client_step env (client_run env c es) e)"
  by (simp add: client_run_def)

lemma client_run_unbound:
  assumes "\<not> bound_listener cb c" and "\<forall>e \<in> set es. \<not> is_connect e"
  shows "(\<exists>n. map on_data (peers (client_run env c es)) = map on_data (peers c) @ replicate n [])
       \<and> calls_to cb (calls (client_run env c es)) = calls_to cb (calls c)"
  using assms(2)
proof (induction es rule: rev_induct)
  case Nil
  then show ?case by (simp add: client_run_def)
next
  case (snoc e es)
  let ?s = "client_run env c es"
  let ?s' = "state_of (client_step env ?s e)"
  from snoc obtain n where n: "map on_data (peers ?s) = map on_data (peers c) @ replicate n []"
    and k: "calls_to cb (calls ?s) = calls_to cb (calls c)" by auto
  from snoc.prems have e: "\<not> is_connect e" by simp
  have unb: "Some cb \<notin> set ls" if "ls \<in> set (map on_data (peers ?s))" for ls
    using that assms(1) unfolding n bound_listener_def by auto
  from client_step_listeners [OF e, of env ?s]
  have "\<exists>m. map on_data (peers ?s') = map on_data (peers c) @ replicate m []"
  proof
    assume "map on_data (peers ?s') = map on_data (peers ?s)"
    with n show ?thesis by auto
  next
    assume "map on_data (peers ?s') = map on_data (peers ?s) @ [[]]"
    with n have "map on_data (peers ?s') = map on_data (peers c) @ replicate (Suc n) []"
      by (simp add: replicate_append_same)
    then show ?thesis by blast
  qed
  moreover from client_step_calls [OF e, of env ?s]
  have "calls_to cb (calls ?s') = calls_to cb (calls c)"
  proof
    assume "calls ?s' = calls ?s"
    with k show ?thesis by simp
  next
    assume "\<exists>p d. e = ClientTransport (PeerData p d) \<and> p < length (peers ?s)
            \<and> calls ?s' = calls ?s @ map (\<lambda>f. MessageReceived (the f) d)
                           (takeWhile (\<lambda>f. f \<noteq> None) (on_data (peers ?s ! p)))"
    then obtain p d where p: "p < length (peers ?s)"
      and c: "calls ?s' = calls ?s @ map (\<lambda>f. MessageReceived (the f) d)
                           (takeWhile (\<lambda>f. f \<noteq> None) (on_data (peers ?s ! p)))" by blast
    from p have "on_data (peers ?s ! p) \<in> set (map on_data (peers ?s))"
      by (metis length_map nth_map nth_mem)
    from calls_to_unbound [OF unb [OF this]] c k show ?thesis
      by (simp add: calls_to_def)
  qed
  ultimately show ?case unfolding client_run_snoc by blast
qed

text \<open>
  C10.  On the Client, \<open>listenForMessages cb\<close> for a callback that no peer has as
  a listener, followed by any events among which no peer \<open>connect\<close> fires: \<open>cb\<close>
  is never called, the listeners of every peer stay the values bound at their
  \<open>connect\<close>, a message goes to the bound value and not to \<open>cb\<close>, and the
  \<open>connect\<close> listener is what binds the value current at that time.  On the Host the
  \<open>data\<close> listener reads the field when the message arrives, so \<open>cb\<close> receives
  the next message of any peer that has the listener.
\<close>

theorem late_listenForMessages:
  assumes "\<not> bound_listener cb c" and "\<forall>e \<in> set es. \<not> is_connect e"
  shows "calls_to cb (calls (client_run env c (ClientListenForMessages cb # es)))
           = calls_to cb (calls c)
     \<and> (\<forall>q<length (peers c).
           on_data (peers (client_run env c (ClientListenForMessages cb # es)) ! q)
             = on_data (peers c ! q))
     \<and> (\<forall>p d f. p < length (peers c) \<and> on_data (peers c ! p) = [Some f] \<longrightarrow>
           calls (state_of (client_step env (listenForMessages cb c) (ClientTransport (PeerData p d))))
             = calls c @ [MessageReceived f d])
     \<and> (\<forall>p k. peer c = Some p \<and> p < length (peers c)
               \<and> (rejects_non_function env \<longrightarrow> onMessageReceived c \<noteq> None) \<longrightarrow>
           on_data (peers (state_of (Client_peer_connect env k c)) ! p)
             = on_data (peers c ! p) @ [onMessageReceived c])
     \<and> (\<forall>h p d. p < length (peers h) \<longrightarrow>
           calls (state_of (host_step env' (listenForMessages cb h) (HostTransport (PeerData p d))))
             = calls h @ map (\<lambda>u. MessageReceived cb d) (on_data (peers h ! p)))"
proof (intro conjI allI impI)
  let ?es = "ClientListenForMessages cb # es"
  have ne: "\<forall>e \<in> set ?es. \<not> is_connect e" using assms(2) by simp
  from client_run_unbound [OF assms(1) ne, of env]
  obtain n where n: "map on_data (peers (client_run env c ?es)) = map on_data (peers c) @ replicate n []"
    and k: "calls_to cb (calls (client_run env c ?es)) = calls_to cb (calls c)" by blast
  show "calls_to cb (calls (client_run env c ?es)) = calls_to cb (calls c)" by (rule k)
  fix q assume q: "q < length (peers c)"
  have "length (peers (client_run env c ?es)) = length (peers c) + n"
    using arg_cong [OF n, of length] by simp
  with q have q': "q < length (peers (client_run env c ?es))" by simp
  have "on_data (peers (client_run env c ?es) ! q) = map on_data (peers (client_run env c ?es)) ! q"
    using q' by simp
  also have "\<dots> = map on_data (peers c) ! q" unfolding n using q by (simp add: nth_append)
  also have "\<dots> = on_data (peers c ! q)" using q by simp
  finally show "on_data (peers (client_run env c ?es) ! q) = on_data (peers c ! q)" .
next
  fix p d f
  assume "p < length (peers c) \<and> on_data (peers c ! p) = [Some f]"
  then show "calls (state_of (client_step env (listenForMessages cb c) (ClientTransport (PeerData p d))))
      = calls c @ [MessageReceived f d]"
    by (simp add: client_step_def client_transport_def listenForMessages_def Client_peer_data_def)
next
  fix p k
  assume "peer c = Some p \<and> p < length (peers c)
     \<and> (rejects_non_function env \<longrightarrow> onMessageReceived c \<noteq> None)"
  then show "on_data (peers (state_of (Client_peer_connect env k c)) ! p)
      = on_data (peers c ! p) @ [onMessageReceived c]"
    by (auto simp: Client_peer_connect_def Let_def)
next
  fix h :: host and p d
  assume "p < length (peers h)"
  then show "calls (state_of (host_step env' (listenForMessages cb h) (HostTransport (PeerData p d))))
      = calls h @ map (\<lambda>u. MessageReceived cb d) (on_data (peers h ! p))"
    by (simp add: host_step_def host_transport_def listenForMessages_def
        emit_Host_peer_data [where cb = cb])
qed


theorem late_listenForMessages_witness:
  "\<not> bound_listener 8 (client_run plain_env (Client_new ''wss://relay'')
        [ClientListenForMessages 7, JoinRoom ''ABC123'', ClientTransport (PeerConnect 0)])
   \<and> (\<forall>e \<in> set [ClientTransport (PeerData 0 ''m1''), Send ''hello'',
                   ClientTransport (PeerData 0 ''m2'')]. \<not> is_connect e) = True
   \<and> calls (client_run plain_env (client_run plain_env (Client_new ''wss://relay'')
        [ClientListenForMessages 7, JoinRoom ''ABC123'', ClientTransport (PeerConnect 0)])
        (ClientListenForMessages 8 #
          [ClientTransport (PeerData 0 ''m1''), Send ''hello'', ClientTransport (PeerData 0 ''m2'')]))
       = [MessageReceived 7 ''m1'', MessageReceived 7 ''m2'']
   \<and> calls_to 8 (calls (client_run plain_env (client_run plain_env (Client_new ''wss://relay'')
        [ClientListenForMessages 7, JoinRoom ''ABC123'', ClientTransport (PeerConnect 0)])
        (ClientListenForMessages 8 #
          [ClientTransport (PeerData 0 ''m1''), Send ''hello'', ClientTransport (PeerData 0 ''m2'')])))
       = []
   \<and> calls (state_of (host_step plain_env
        (listenForMessages 8 (host_run plain_env (Host_new ''wss://relay'')
           [CreateRoom, ListenForGuests 1, HostListenForMessages 7,
            HostTransport (SocketData (Envelope (GuestRequest ''O1'' ''guest1''))),
            HostTransport (PeerConnect 0)]))
        (HostTransport (PeerData 0 ''m1''))))
       = [GuestJoined 1 ''guest1'', MessageReceived 8 ''m1'']"
proof -
  let ?c = "client_run plain_env (Client_new ''wss://relay'')
        [ClientListenForMessages 7, JoinRoom ''ABC123'', ClientTransport (PeerConnect 0)]"
  let ?es = "[ClientTransport (PeerData 0 ''m1''), Send ''hello'',
              ClientTransport (PeerData 0 ''m2'')] :: string client_event list"
  let ?h = "host_run plain_env (Host_new ''wss://relay'')
           [CreateRoom, ListenForGuests 1, HostListenForMessages 7,
            HostTransport (SocketData (Envelope (GuestRequest ''O1'' ''guest1''))),
            HostTransport (PeerConnect 0)]"
  have c: "?c = \<lparr>socket = Some \<lparr>url = ''wss://relay'', outbox = [], socket_destroyed = False\<rparr>,
      onMessageReceived = Some 7,
      peers = [\<lparr>initiator = True, trickle = False, signalled = [], on_signal = [''ABC123''],
                on_connect = [0], on_data = [Some 7], connected = True, destroyed = False,
                sent = []\<rparr>],
      calls = [], peer = Some 0, roomJoined = Pending, answer_waiters = 1,
      joins = [\<lparr>deadline = 30000, settled = Resolved ()\<rparr>], now = 0\<rparr>"
    by (simp add: client_eval)
  have h: "peers ?h = [\<lparr>initiator = False, trickle = False, signalled = [''O1''],
                on_signal = [''guest1''], on_connect = [''guest1''], on_data = [()],
                connected = True, destroyed = False, sent = []\<rparr>]
      \<and> calls ?h = [GuestJoined 1 ''guest1'']"
    by (simp add: host_eval)
  have a: "\<not> bound_listener 8 ?c" unfolding c by (simp add: bound_listener_def)
  have b: "\<forall>e \<in> set ?es. \<not> is_connect e" by simp
  have run: "calls (client_run plain_env ?c (ClientListenForMessages 8 # ?es))
       = [MessageReceived 7 ''m1'', MessageReceived 7 ''m2'']"
    unfolding c by (simp add: client_eval send_def peer_send_def Peer_send_def)
  from late_listenForMessages [OF a b, of plain_env plain_env]
  have t1: "calls_to 8 (calls (client_run plain_env ?c (ClientListenForMessages 8 # ?es)))
       = calls_to 8 (calls ?c)"
    and t2: "\<forall>h p d. p < length (peers h) \<longrightarrow>
           calls (state_of (host_step plain_env (listenForMessages 8 h) (HostTransport (PeerData p d))))
             = calls h @ map (\<lambda>u. MessageReceived 8 d) (on_data (peers h ! p))"
    by blast+
  have t1': "calls_to 8 (calls (client_run plain_env ?c (ClientListenForMessages 8 # ?es))) = []"
    unfolding t1 unfolding c by (simp add: calls_to_def)
  have "0 < length (peers ?h)" using h by simp
  with t2 have "calls (state_of (host_step plain_env (listenForMessages 8 ?h)
        (HostTransport (PeerData 0 ''m1'')))) = calls ?h @ map (\<lambda>u. MessageReceived 8 ''m1'') (on_data (peers ?h ! 0))"
    by blast
  then have t2': "calls (state_of (host_step plain_env (listenForMessages 8 ?h)
        (HostTransport (PeerData 0 ''m1'')))) = [GuestJoined 1 ''guest1'', MessageReceived 8 ''m1'']"
    using h by simp
  show ?thesis using a b run t1' t2' by simp
qed

subsection \<open>Guest handshakes and the registry\<close>

lemma view_sent [simp]: "view (q\<lparr>sent := x\<rparr>) = view q"
  by (simp add: view_def)

lemma peer_send_view:
  "peer_send chunk p ps = Inr ps' \<Longrightarrow> map view ps' = map view ps"
  by (auto simp: peer_send_def Peer_send_def map_update list_update_same_conv
      split: if_splits)

lemma forEach_send_view:
  "map view (peers (state_of (forEach_send chunk kvs h))) = map view (peers h)
   \<and> connections (state_of (forEach_send chunk kvs h)) = connections h
   \<and> calls (state_of (forEach_send chunk kvs h)) = calls h"
proof (induction chunk kvs h rule: forEach_send.induct)
  case (1 chunk h)
  then show ?case by simp
next
  case (2 chunk client p kvs h)
  show ?case
  proof (cases "peer_send chunk p (peers h)")
    case (Inl e)
    then show ?thesis by simp
  next
    case (Inr ps)
    with 2 [OF Inr] peer_send_view [OF Inr] show ?thesis by simp
  qed
qed

lemma sendTo_view:
  "map view (peers (state_of (sendTo env clientId m h))) = map view (peers h)
   \<and> connections (state_of (sendTo env clientId m h)) = connections h
   \<and> calls (state_of (sendTo env clientId m h)) = calls h"
  by (auto simp: sendTo_def dest: peer_send_view split: option.splits sum.splits)

lemma emit_Host_peer_signal_view:
  "peers (state_of (emit (Host_peer_signal sig) ls h)) = peers h
   \<and> connections (state_of (emit (Host_peer_signal sig) ls h)) = connections h
   \<and> calls (state_of (emit (Host_peer_signal sig) ls h)) = calls h"
  by (rule emit_preserves
      [where P = "\<lambda>s. peers s = peers h \<and> connections s = connections h \<and> calls s = calls h"])
    (simp_all add: Host_peer_signal_def socket_send_def split: option.splits sum.splits)

lemma emit_Host_peer_data_view:
  "peers (state_of (emit (Host_peer_data d) ls h)) = peers h
   \<and> connections (state_of (emit (Host_peer_data d) ls h)) = connections h
   \<and> (\<forall>cb c. GuestJoined cb c \<in> set (calls (state_of (emit (Host_peer_data d) ls h)))
         \<longrightarrow> GuestJoined cb c \<in> set (calls h))"
  by (rule emit_preserves
      [where P = "\<lambda>s. peers s = peers h \<and> connections s = connections h
          \<and> (\<forall>cb c. GuestJoined cb c \<in> set (calls s) \<longrightarrow> GuestJoined cb c \<in> set (calls h))"])
    (auto simp: Host_peer_data_def split: option.splits)

lemma host_step_frame:
  assumes "\<not> changes_handshakes e"
  shows "map view (peers (state_of (host_step env h e))) = map view (peers h)
   \<and> connections (state_of (host_step env h e)) = connections h
   \<and> (\<forall>cb c. GuestJoined cb c \<in> set (calls (state_of (host_step env h e)))
         \<longrightarrow> GuestJoined cb c \<in> set (calls h))"
proof (cases e)
  case (HostTransport ev)
  show ?thesis
  proof (cases ev)
    case SocketConnect
    then show ?thesis unfolding HostTransport
      by (simp add: host_step_def host_transport_def Host_socket_connect_def socket_send_def
          split: option.splits sum.splits)
  next
    case (SocketData d)
    with assms HostTransport show ?thesis
      by (cases d)
        (auto simp: host_step_def host_transport_def Host_socket_data_def
          split: signal_response.splits sum.splits)
  next
    case (PeerSignal p sig)
    then show ?thesis unfolding HostTransport
      by (simp add: host_step_def host_transport_def emit_Host_peer_signal_view)
  next
    case (PeerConnect p)
    with assms HostTransport show ?thesis by simp
  next
    case (PeerData p d)
    then show ?thesis unfolding HostTransport
      using emit_Host_peer_data_view [of d _ h]
      by (simp add: host_step_def host_transport_def)
  qed
qed (simp_all add: host_step_def createRoom_def closeRoom_def listenForGuests_def
      listenForMessages_def sendToAll_def forEach_send_view sendTo_view split: option.splits)

lemma host_step_GuestRequest:
  "state_of (host_step env h (HostTransport (SocketData (Envelope (GuestRequest offer client)))))
     = (if socket h = None then h else registerGuest offer client h)"
  by (simp add: host_step_def host_transport_def Host_socket_data_def)

lemma registerGuest_effect:
  "peers (registerGuest offer client h) =
      peers h @ [\<lparr>initiator = False, trickle = False, signalled = [offer], on_signal = [client],
                  on_connect = [client], on_data = [], connected = False, destroyed = False,
                  sent = []\<rparr>]
   \<and> connections (registerGuest offer client h) = connections h
   \<and> calls (registerGuest offer client h) = calls h"
  by (simp add: registerGuest_def Peer_new_def Peer_signal_def Let_def)

lemma host_step_PeerConnect:
  assumes "p < length (peers h)" and "on_connect (peers h ! p) = [client]"
  shows "host_step env h (HostTransport (PeerConnect p)) =
     (case guestJoinedCallback h of
        None \<Rightarrow> Thrown (TypeError ''guestJoinedCallback is not a function'')
          (h\<lparr>peers := (peers h)[p := (peers h ! p)\<lparr>connected := True\<rparr>],
             connections := Map_set client p (connections h)\<rparr>)
      | Some cb \<Rightarrow> Done
          (h\<lparr>peers := (peers h)[p := (peers h ! p)
                \<lparr>connected := True, on_data := on_data (peers h ! p) @ [()]\<rparr>],
             connections := Map_set client p (connections h),
             calls := calls h @ [GuestJoined cb client]\<rparr>))"
  using assms
  by (simp add: host_step_def host_transport_def Host_peer_connect_def Let_def
      split: option.splits)

lemma Map_set_set: "set (Map_set k v kvs) \<subseteq> insert (k, v) (set kvs)"
  by (induction kvs) (auto split: if_splits)

lemma Map_set_keys: "fst ` set (Map_set k v kvs) = insert k (fst ` set kvs)"
proof (induction kvs)
  case Nil
  then show ?case by simp
next
  case (Cons a kvs)
  obtain k' v' where a: "a = (k', v')" by (cases a)
  show ?case unfolding a by (cases "k = k'") (simp_all add: Cons.IH insert_commute)
qed

lemma Map_set_distinct: "distinct (map fst kvs) \<Longrightarrow> distinct (map fst (Map_set k v kvs))"
  by (induction kvs) (auto simp: Map_set_keys)

lemma view_nth:
  assumes "map view xs = map view ys" and "p < length ys"
  shows "on_connect (xs ! p) = on_connect (ys ! p) \<and> on_data (xs ! p) = on_data (ys ! p)
       \<and> connected (xs ! p) = connected (ys ! p) \<and> destroyed (xs ! p) = destroyed (ys ! p)"
proof -
  from assms(1) have l: "length xs = length ys" by (rule map_eq_imp_length_eq)
  from assms have "map view xs ! p = map view ys ! p" by simp
  with assms(2) l have "view (xs ! p) = view (ys ! p)" by simp
  then show ?thesis by (simp add: view_def)
qed

lemma handshake_inv_frame:
  assumes inv: "handshake_inv h"
    and v: "map view (peers h') = map view (peers h)"
    and r: "connections h' = connections h"
  shows "handshake_inv h'"
proof -
  from v have l: "length (peers h') = length (peers h)" by (rule map_eq_imp_length_eq)
  note n = view_nth [OF v]
  from inv have "inv_shape h'"
    unfolding handshake_inv_def inv_shape_def l by (simp add: n)
  moreover from inv have "inv_data h'"
    unfolding handshake_inv_def inv_data_def l by (simp add: n)
  moreover from inv have "inv_reg h'"
    unfolding handshake_inv_def inv_reg_def l r by (auto simp: n)
  moreover from inv have "inv_keys h'"
    unfolding handshake_inv_def inv_keys_def l r by (simp add: n)
  ultimately show ?thesis by (simp add: handshake_inv_def)
qed

lemma inv_calls_frame:
  assumes inv: "inv_calls h"
    and v: "map view (peers h') = map view (peers h)"
    and c: "\<forall>cb c. GuestJoined cb c \<in> set (calls h') \<longrightarrow> GuestJoined cb c \<in> set (calls h)"
  shows "inv_calls h'"
proof -
  from v have l: "length (peers h') = length (peers h)" by (rule map_eq_imp_length_eq)
  note n = view_nth [OF v]
  from inv c show ?thesis
    unfolding inv_calls_def l by (simp add: n cong: conj_cong) blast
qed

lemma handshake_inv_append:
  assumes inv: "handshake_inv h"
    and ps: "peers h' = peers h @ [q]"
    and q: "on_connect q = [client]" "on_data q = []" "\<not> connected q" "\<not> destroyed q"
    and r: "connections h' = connections h"
  shows "handshake_inv h'"
proof -
  have nth: "(peers h @ [q]) ! p = (if p < length (peers h) then peers h ! p else q)"
    if "p < Suc (length (peers h))" for p
    using that by (auto simp: nth_append less_Suc_eq)
  from inv q have "inv_shape h'"
    unfolding handshake_inv_def inv_shape_def ps by (simp add: nth)
  moreover from inv q have "inv_data h'"
    unfolding handshake_inv_def inv_data_def ps by (simp add: nth)
  moreover from inv have "inv_reg h'"
    unfolding handshake_inv_def inv_reg_def ps r by (fastforce simp: nth_append)
  moreover from inv q have "inv_keys h'"
    unfolding handshake_inv_def inv_keys_def ps r by (simp add: nth)
  ultimately show ?thesis by (simp add: handshake_inv_def)
qed

lemma inv_calls_append:
  assumes inv: "inv_calls h"
    and ps: "peers h' = peers h @ [q]"
    and c: "calls h' = calls h"
  shows "inv_calls h'"
  unfolding inv_calls_def ps c
proof (intro allI impI)
  fix cb c assume "GuestJoined cb c \<in> set (calls h)"
  with inv obtain p where "p < length (peers h)" "connected (peers h ! p)"
    "on_connect (peers h ! p) = [c]"
    unfolding inv_calls_def by blast
  then show "\<exists>p<length (peers h @ [q]).
      connected ((peers h @ [q]) ! p) \<and> on_connect ((peers h @ [q]) ! p) = [c]"
    by (intro exI [of _ p]) (simp add: nth_append)
qed

lemma handshake_inv_connect:
  assumes inv: "handshake_inv h"
    and p: "p < length (peers h)"
    and oc: "on_connect (peers h ! p) = [c]"
    and ps: "peers h' = (peers h)[p := (peers h ! p)\<lparr>connected := True, on_data := od\<rparr>]"
    and r: "connections h' = Map_set c p (connections h)"
  shows "handshake_inv h'"
proof -
  have nth: "peers h' ! i = (if i = p then (peers h ! p)\<lparr>connected := True, on_data := od\<rparr>
      else peers h ! i)" if "i < length (peers h)" for i
    using that unfolding ps by (simp add: nth_list_update)
  have l: "length (peers h') = length (peers h)" unfolding ps by simp
  from inv oc have "inv_shape h'"
    unfolding handshake_inv_def inv_shape_def l by (simp add: nth)
  moreover from inv have "inv_data h'"
    unfolding handshake_inv_def inv_data_def l by (simp add: nth)
  moreover have "inv_reg h'"
    unfolding inv_reg_def r l
  proof (intro ballI, clarify)
    fix c' p' assume "(c', p') \<in> set (Map_set c p (connections h))"
    with Map_set_set [of c p "connections h"]
    consider "(c', p') = (c, p)" | "(c', p') \<in> set (connections h)" by blast
    then show "p' < length (peers h) \<and> connected (peers h' ! p') \<and> on_connect (peers h' ! p') = [c']"
    proof cases
      case 1
      with p oc show ?thesis by (simp add: nth)
    next
      case 2
      with inv have "p' < length (peers h)" "connected (peers h ! p')"
        "on_connect (peers h ! p') = [c']"
        unfolding handshake_inv_def inv_reg_def by auto
      then show ?thesis by (auto simp: nth)
    qed
  qed
  moreover have "inv_keys h'"
  proof -
    from inv have d: "distinct (map fst (connections h))"
      and k: "\<And>i c'. i < length (peers h) \<Longrightarrow> connected (peers h ! i)
          \<Longrightarrow> on_connect (peers h ! i) = [c'] \<Longrightarrow> c' \<in> fst ` set (connections h)"
      unfolding handshake_inv_def inv_keys_def by auto
    show ?thesis
      unfolding inv_keys_def l r Map_set_keys
      using Map_set_distinct [OF d, of c p] k oc by (auto simp: nth)
  qed
  ultimately show ?thesis by (simp add: handshake_inv_def)
qed

lemma inv_calls_connect:
  assumes inv: "inv_calls h"
    and p: "p < length (peers h)"
    and oc: "on_connect (peers h ! p) = [c]"
    and ps: "peers h' = (peers h)[p := (peers h ! p)\<lparr>connected := True, on_data := od\<rparr>]"
    and cs: "set (calls h') \<subseteq> insert (GuestJoined cb c) (set (calls h))"
  shows "inv_calls h'"
proof -
  have nth: "peers h' ! i = (if i = p then (peers h ! p)\<lparr>connected := True, on_data := od\<rparr>
      else peers h ! i)" if "i < length (peers h)" for i
    using that unfolding ps by (simp add: nth_list_update)
  have l: "length (peers h') = length (peers h)" unfolding ps by simp
  show ?thesis
    unfolding inv_calls_def l
  proof (intro allI impI)
    fix cb' c' assume "GuestJoined cb' c' \<in> set (calls h')"
    with cs consider "c' = c" | "GuestJoined cb' c' \<in> set (calls h)" by auto
    then show "\<exists>i<length (peers h). connected (peers h' ! i) \<and> on_connect (peers h' ! i) = [c']"
    proof cases
      case 1
      with p oc show ?thesis by (intro exI [of _ p]) (simp add: nth)
    next
      case 2
      with inv obtain i where "i < length (peers h)" "connected (peers h ! i)"
        "on_connect (peers h ! i) = [c']"
        unfolding inv_calls_def by blast
      then show ?thesis by (intro exI [of _ i]) (auto simp: nth)
    qed
  qed
qed

lemma host_step_PeerConnect_beyond:
  "\<not> p < length (peers h) \<Longrightarrow> host_step env h (HostTransport (PeerConnect p)) = Done h"
  by (simp add: host_step_def host_transport_def)

lemma host_step_cases:
  assumes inv: "handshake_inv h"
  obtains (frame) "\<not> changes_handshakes e \<or> socket h = None \<or> (\<exists>p. e = HostTransport (PeerConnect p) \<and> \<not> p < length (peers h))"
      "map view (peers (state_of (host_step env h e))) = map view (peers h)"
      "connections (state_of (host_step env h e)) = connections h"
      "\<forall>cb c. GuestJoined cb c \<in> set (calls (state_of (host_step env h e)))
         \<longrightarrow> GuestJoined cb c \<in> set (calls h)"
  | (guest) offer client where
      "e = HostTransport (SocketData (Envelope (GuestRequest offer client)))"
      "socket h \<noteq> None"
      "peers (state_of (host_step env h e)) = peers h @
         [\<lparr>initiator = False, trickle = False, signalled = [offer], on_signal = [client],
           on_connect = [client], on_data = [], connected = False, destroyed = False,
           sent = []\<rparr>]"
      "connections (state_of (host_step env h e)) = connections h"
      "calls (state_of (host_step env h e)) = calls h"
  | (connect) p c od cb where
      "e = HostTransport (PeerConnect p)" "p < length (peers h)"
      "on_connect (peers h ! p) = [c]"
      "peers (state_of (host_step env h e)) =
         (peers h)[p := (peers h ! p)\<lparr>connected := True, on_data := od\<rparr>]"
      "connections (state_of (host_step env h e)) = Map_set c p (connections h)"
      "set (calls (state_of (host_step env h e))) \<subseteq> insert (GuestJoined cb c) (set (calls h))"
proof (cases "changes_handshakes e")
  case False
  with host_step_frame [OF False, of env h] show ?thesis by (intro frame) simp_all
next
  case True
  then consider offer client where "e = HostTransport (SocketData (Envelope (GuestRequest offer client)))"
    | p where "e = HostTransport (PeerConnect p)"
    by (cases e rule: changes_handshakes.cases) auto
  then show ?thesis
  proof cases
    case 1
    show ?thesis
    proof (cases "socket h = None")
      case True
      then show ?thesis by (intro frame) (simp_all add: 1 host_step_GuestRequest)
    next
      case False
      then have st: "state_of (host_step env h e) = registerGuest offer client h"
        unfolding 1 host_step_GuestRequest by (simp del: not_None_eq)
      show ?thesis
        by (rule guest [OF 1 False]) (simp_all add: st registerGuest_effect)
    qed
  next
    case 2
    show ?thesis
    proof (cases "p < length (peers h)")
      case False
      then show ?thesis
        by (intro frame) (simp_all add: 2 host_step_PeerConnect_beyond)
    next
      case True
      with inv obtain c where oc: "on_connect (peers h ! p) = [c]"
        unfolding handshake_inv_def inv_shape_def by blast
      show ?thesis
      proof (cases "guestJoinedCallback h")
        case None
        show ?thesis
          by (rule connect [OF 2 True oc, where od = "on_data (peers h ! p)" and cb = 0])
            (auto simp: 2 host_step_PeerConnect [OF True oc] None)
      next
        case (Some cb)
        show ?thesis
          by (rule connect [OF 2 True oc, where od = "on_data (peers h ! p) @ [()]" and cb = cb])
            (auto simp: 2 host_step_PeerConnect [OF True oc] Some)
      qed
    qed
  qed
qed

lemma handshake_inv_step:
  assumes inv: "handshake_inv h"
  shows "handshake_inv (state_of (host_step env h e))"
proof (cases rule: host_step_cases [OF inv, where e = e and env = env, case_names frame guest connect])
  case frame
  then show ?thesis by (intro handshake_inv_frame [OF inv])
next
  case (guest offer client)
  show ?thesis
    by (rule handshake_inv_append [OF inv guest(3) _ _ _ _ guest(4)]) simp_all
next
  case (connect p c od cb)
  show ?thesis
    by (rule handshake_inv_connect [OF inv connect(2,3,4,5)])
qed

lemma inv_calls_step:
  assumes inv: "handshake_inv h" and ic: "inv_calls h"
  shows "inv_calls (state_of (host_step env h e))"
proof (cases rule: host_step_cases [OF inv, where e = e and env = env, case_names frame guest connect])
  case frame
  then show ?thesis by (intro inv_calls_frame [OF ic])
next
  case (guest offer client)
  show ?thesis
    by (rule inv_calls_append [OF ic guest(3) guest(5)])
next
  case (connect p c od cb)
  show ?thesis
    by (rule inv_calls_connect [OF ic connect(2,3,4,6)])
qed

lemma host_run_snoc:
  "host_run env h (es @ [e]) = state_of (host_step env (host_run env h es) e)"
  by (simp add: host_run_def)

lemma handshake_inv_run:
  assumes "handshake_inv h"
  shows "handshake_inv (host_run env h es)"
proof (induction es rule: rev_induct)
  case Nil
  from assms show ?case by (simp add: host_run_def)
next
  case (snoc e es)
  then show ?case unfolding host_run_snoc by (rule handshake_inv_step)
qed

lemma inv_calls_run:
  assumes "handshake_inv h" and "inv_calls h"
  shows "inv_calls (host_run env h es)"
proof (induction es rule: rev_induct)
  case Nil
  from assms show ?case by (simp add: host_run_def)
next
  case (snoc e es)
  show ?case unfolding host_run_snoc
    by (rule inv_calls_step [OF handshake_inv_run [OF assms(1)] snoc])
qed

lemma handshake_inv_empty:
  "peers h = [] \<Longrightarrow> connections h = [] \<Longrightarrow> handshake_inv h"
  by (simp add: handshake_inv_def inv_shape_def inv_data_def inv_reg_def inv_keys_def)

lemma guest_requests_append:
  "guest_requests (xs @ ys) = guest_requests xs @ guest_requests ys"
  by (induction xs rule: guest_requests.induct) simp_all

lemma guest_requests_single:
  "guest_requests [e] = (case e of
      HostTransport (SocketData (Envelope (GuestRequest offer client))) \<Rightarrow> [client] | _ \<Rightarrow> [])"
  by (cases e rule: changes_handshakes.cases) simp_all

lemma run_fired:
  assumes p0: "peers h0 = []" and r0: "connections h0 = []"
  shows "\<forall>p<length (peers (host_run env h0 es)). connected (peers (host_run env h0 es) ! p)
           \<longrightarrow> HostTransport (PeerConnect p) \<in> set es"
proof (induction es rule: rev_induct)
  case Nil
  from p0 show ?case by (simp add: host_run_def)
next
  case (snoc e es)
  let ?h = "host_run env h0 es"
  let ?h' = "state_of (host_step env ?h e)"
  have inv: "handshake_inv ?h"
    by (rule handshake_inv_run [OF handshake_inv_empty [OF p0 r0]])
  from snoc have fired: "\<And>p. p < length (peers ?h) \<Longrightarrow> connected (peers ?h ! p)
        \<Longrightarrow> HostTransport (PeerConnect p) \<in> set es" by auto
  have "\<forall>p<length (peers ?h'). connected (peers ?h' ! p)
           \<longrightarrow> HostTransport (PeerConnect p) \<in> set (es @ [e])"
  proof (cases rule: host_step_cases [OF inv, where e = e and env = env, case_names frame guest connect])
    case frame
    from frame(2) have l: "length (peers ?h') = length (peers ?h)"
      by (rule map_eq_imp_length_eq)
    from fired show ?thesis by (simp add: l view_nth [OF frame(2)])
  next
    case (guest offer client)
    from fired show ?thesis unfolding guest(3)
      by (auto simp: nth_append less_Suc_eq)
  next
    case (connect p c od cb)
    from fired connect(1,2) show ?thesis unfolding connect(4)
      by (auto simp: nth_list_update)
  qed
  then show ?case unfolding host_run_snoc .
qed

lemma run_guests:
  assumes s: "socket h0 \<noteq> None" and p0: "peers h0 = []" and r0: "connections h0 = []"
  shows "map on_connect (peers (host_run env h0 es)) = map (\<lambda>c. [c]) (guest_requests es)"
proof (induction es rule: rev_induct)
  case Nil
  from p0 show ?case by (simp add: host_run_def)
next
  case (snoc e es)
  let ?h = "host_run env h0 es"
  let ?h' = "state_of (host_step env ?h e)"
  have inv: "handshake_inv ?h"
    by (rule handshake_inv_run [OF handshake_inv_empty [OF p0 r0]])
  have sock: "socket ?h \<noteq> None" by (rule host_run_socket [OF s])
  note oc = snoc
  have "map on_connect (peers ?h') = map (\<lambda>c. [c]) (guest_requests es @ guest_requests [e])"
  proof (cases rule: host_step_cases [OF inv, where e = e and env = env, case_names frame guest connect])
    case frame
    from frame(1) sock have g: "guest_requests [e] = []"
      by (cases e rule: changes_handshakes.cases) auto
    from frame(2) have l: "length (peers ?h') = length (peers ?h)"
      by (rule map_eq_imp_length_eq)
    have "map on_connect (peers ?h') = map on_connect (peers ?h)"
      by (rule nth_equalityI) (simp_all add: l view_nth [OF frame(2)])
    with oc g show ?thesis by simp
  next
    case (guest offer client)
    from guest(1) have g: "guest_requests [e] = [client]" by simp
    from oc g show ?thesis unfolding guest(3) by simp
  next
    case (connect p c od cb)
    from connect(1) have g: "guest_requests [e] = []" by simp
    have "map on_connect (peers ?h') = map on_connect (peers ?h)"
      unfolding connect(4) using connect(2) by (intro nth_equalityI) (auto simp: nth_list_update)
    with oc g show ?thesis by simp
  qed
  then show ?case unfolding host_run_snoc guest_requests_append .
qed

text \<open>
  C5.  In every state a new Host reaches, a pair of the registry, a \<open>data\<close> listener on
  a peer and a call of the guest-joined callback each belong to a handshake whose own
  \<open>connect\<close> event is among the events so far: none of the three exists before it.
  \<open>registerGuest\<close> itself leaves the registry and the calls as they were and makes a
  peer that has no \<open>data\<close> listener.  The \<open>connect\<close> listener inserts the pair,
  then calls the callback with the client identifier, then attaches the \<open>data\<close>
  listener; with no callback registered it throws after the insertion.
\<close>

theorem registered_only_on_connect:
  "let h = host_run env (Host_new server) es in
     (\<forall>(c, p) \<in> set (connections h).
         p < length (peers h) \<and> on_connect (peers h ! p) = [c]
         \<and> HostTransport (PeerConnect p) \<in> set es)
   \<and> (\<forall>p<length (peers h). on_data (peers h ! p) \<noteq> [] \<longrightarrow>
         HostTransport (PeerConnect p) \<in> set es)
   \<and> (\<forall>cb c. GuestJoined cb c \<in> set (calls h) \<longrightarrow>
         (\<exists>p<length (peers h). on_connect (peers h ! p) = [c]
            \<and> HostTransport (PeerConnect p) \<in> set es))
   \<and> (\<forall>offer client.
         connections (registerGuest offer client h) = connections h
         \<and> calls (registerGuest offer client h) = calls h
         \<and> peers (registerGuest offer client h) = peers h @
              [\<lparr>initiator = False, trickle = False, signalled = [offer], on_signal = [client],
                on_connect = [client], on_data = [], connected = False, destroyed = False,
                sent = []\<rparr>])
   \<and> (\<forall>p client. p < length (peers h) \<and> on_connect (peers h ! p) = [client] \<longrightarrow>
         host_step env h (HostTransport (PeerConnect p)) =
           (case guestJoinedCallback h of
              None \<Rightarrow> Thrown (TypeError ''guestJoinedCallback is not a function'')
                (h\<lparr>peers := (peers h)[p := (peers h ! p)\<lparr>connected := True\<rparr>],
                   connections := Map_set client p (connections h)\<rparr>)
            | Some cb \<Rightarrow> Done
                (h\<lparr>peers := (peers h)[p := (peers h ! p)
                      \<lparr>connected := True, on_data := on_data (peers h ! p) @ [()]\<rparr>],
                   connections := Map_set client p (connections h),
                   calls := calls h @ [GuestJoined cb client]\<rparr>)))"
proof -
  let ?init = "Host_new server"
  let ?h = "host_run env ?init es"
  have p0: "peers ?init = []" and r0: "connections ?init = []" and c0: "inv_calls ?init"
    by (simp_all add: Host_new_def inv_calls_def)
  have inv: "handshake_inv ?h"
    by (rule handshake_inv_run [OF handshake_inv_empty [OF p0 r0]])
  have ic: "inv_calls ?h"
    by (rule inv_calls_run [OF handshake_inv_empty [OF p0 r0] c0])
  have fired: "HostTransport (PeerConnect p) \<in> set es"
    if "p < length (peers ?h)" "connected (peers ?h ! p)" for p
    using run_fired [OF p0 r0, of env es] that by blast
  have reg: "\<forall>(c, p) \<in> set (connections ?h).
         p < length (peers ?h) \<and> on_connect (peers ?h ! p) = [c]
         \<and> HostTransport (PeerConnect p) \<in> set es"
    using inv fired unfolding handshake_inv_def inv_reg_def by fastforce
  have dat: "\<forall>p<length (peers ?h). on_data (peers ?h ! p) \<noteq> [] \<longrightarrow>
         HostTransport (PeerConnect p) \<in> set es"
    using inv fired unfolding handshake_inv_def inv_data_def by blast
  have cal: "\<forall>cb c. GuestJoined cb c \<in> set (calls ?h) \<longrightarrow>
         (\<exists>p<length (peers ?h). on_connect (peers ?h ! p) = [c]
            \<and> HostTransport (PeerConnect p) \<in> set es)"
    using ic fired unfolding inv_calls_def by blast
  have con: "\<forall>p client. p < length (peers ?h) \<and> on_connect (peers ?h ! p) = [client] \<longrightarrow>
         host_step env ?h (HostTransport (PeerConnect p)) =
           (case guestJoinedCallback ?h of
              None \<Rightarrow> Thrown (TypeError ''guestJoinedCallback is not a function'')
                (?h\<lparr>peers := (peers ?h)[p := (peers ?h ! p)\<lparr>connected := True\<rparr>],
                   connections := Map_set client p (connections ?h)\<rparr>)
            | Some cb \<Rightarrow> Done
                (?h\<lparr>peers := (peers ?h)[p := (peers ?h ! p)
                      \<lparr>connected := True, on_data := on_data (peers ?h ! p) @ [()]\<rparr>],
                   connections := Map_set client p (connections ?h),
                   calls := calls ?h @ [GuestJoined cb client]\<rparr>))"
    by (auto simp: host_step_PeerConnect)
  show ?thesis
    unfolding Let_def using reg dat cal con by (simp add: registerGuest_effect)
qed

theorem registered_only_on_connect_witness:
  "connections (host_run plain_env (Host_new ''wss://relay'')
        [CreateRoom, ListenForGuests 1,
         HostTransport (SocketData (Envelope (GuestRequest ''O1'' ''guest1''))),
         HostTransport (SocketData (Envelope (GuestRequest ''O2'' ''guest2''))),
         HostTransport (PeerConnect 1)]) = [(''guest2'', 1)]
   \<and> calls (host_run plain_env (Host_new ''wss://relay'')
        [CreateRoom, ListenForGuests 1,
         HostTransport (SocketData (Envelope (GuestRequest ''O1'' ''guest1''))),
         HostTransport (SocketData (Envelope (GuestRequest ''O2'' ''guest2''))),
         HostTransport (PeerConnect 1)]) = [GuestJoined 1 ''guest2'']
   \<and> map on_data (peers (host_run plain_env (Host_new ''wss://relay'')
        [CreateRoom, ListenForGuests 1,
         HostTransport (SocketData (Envelope (GuestRequest ''O1'' ''guest1''))),
         HostTransport (SocketData (Envelope (GuestRequest ''O2'' ''guest2''))),
         HostTransport (PeerConnect 1)])) = [[], [()]]
   \<and> HostTransport (PeerConnect 1) \<in> set
        [CreateRoom, ListenForGuests 1,
         HostTransport (SocketData (Envelope (GuestRequest ''O1'' ''guest1''))),
         HostTransport (SocketData (Envelope (GuestRequest ''O2'' ''guest2''))),
         HostTransport (PeerConnect 1) :: string host_event]
   \<and> HostTransport (PeerConnect 0) \<notin> set
        [CreateRoom, ListenForGuests 1,
         HostTransport (SocketData (Envelope (GuestRequest ''O1'' ''guest1''))),
         HostTransport (SocketData (Envelope (GuestRequest ''O2'' ''guest2''))),
         HostTransport (PeerConnect 1) :: string host_event]
   \<and> connections (state_of (host_step plain_env (host_run plain_env (Host_new ''wss://relay'')
        [CreateRoom, ListenForGuests 1,
         HostTransport (SocketData (Envelope (GuestRequest ''O1'' ''guest1''))),
         HostTransport (SocketData (Envelope (GuestRequest ''O2'' ''guest2''))),
         HostTransport (PeerConnect 1)]) (HostTransport (PeerConnect 0))))
       = [(''guest2'', 1), (''guest1'', 0)]"
proof -
  let ?es = "[CreateRoom, ListenForGuests 1,
         HostTransport (SocketData (Envelope (GuestRequest ''O1'' ''guest1''))),
         HostTransport (SocketData (Envelope (GuestRequest ''O2'' ''guest2''))),
         HostTransport (PeerConnect 1)] :: string host_event list"
  let ?h = "host_run plain_env (Host_new ''wss://relay'') ?es"
  have h: "peers ?h =
      [\<lparr>initiator = False, trickle = False, signalled = [''O1''], on_signal = [''guest1''],
         on_connect = [''guest1''], on_data = [], connected = False, destroyed = False,
         sent = []\<rparr>,
       \<lparr>initiator = False, trickle = False, signalled = [''O2''], on_signal = [''guest2''],
         on_connect = [''guest2''], on_data = [()], connected = True, destroyed = False,
         sent = []\<rparr>]
     \<and> connections ?h = [(''guest2'', 1)] \<and> calls ?h = [GuestJoined 1 ''guest2'']
     \<and> guestJoinedCallback ?h = Some 1"
    by (simp add: host_eval)
  from registered_only_on_connect [of plain_env "''wss://relay''" ?es]
  have "\<forall>p client. p < length (peers ?h) \<and> on_connect (peers ?h ! p) = [client] \<longrightarrow>
         host_step plain_env ?h (HostTransport (PeerConnect p)) =
           (case guestJoinedCallback ?h of
              None \<Rightarrow> Thrown (TypeError ''guestJoinedCallback is not a function'')
                (?h\<lparr>peers := (peers ?h)[p := (peers ?h ! p)\<lparr>connected := True\<rparr>],
                   connections := Map_set client p (connections ?h)\<rparr>)
            | Some cb \<Rightarrow> Done
                (?h\<lparr>peers := (peers ?h)[p := (peers ?h ! p)
                      \<lparr>connected := True, on_data := on_data (peers ?h ! p) @ [()]\<rparr>],
                   connections := Map_set client p (connections ?h),
                   calls := calls ?h @ [GuestJoined cb client]\<rparr>))"
    unfolding Let_def by blast
  from this [rule_format, of 0 "''guest1''"] h
  have "connections (state_of (host_step plain_env ?h (HostTransport (PeerConnect 0))))
       = [(''guest2'', 1), (''guest1'', 0)]"
    by simp
  with h show ?thesis by simp
qed

lemma forEach_send_all:
  assumes "\<forall>(c, p) \<in> set kvs. p < length (peers h) \<and> connected (peers h ! p)
             \<and> \<not> destroyed (peers h ! p)"
    and "distinct (map snd kvs)"
  shows "forEach_send chunk kvs h =
     Done (h\<lparr>peers := map (\<lambda>i. if i \<in> snd ` set kvs
                                  then (peers h ! i)\<lparr>sent := sent (peers h ! i) @ [chunk]\<rparr>
                                  else peers h ! i) [0..<length (peers h)]\<rparr>)"
  using assms
proof (induction kvs arbitrary: h)
  case Nil
  then show ?case by (simp add: map_nth)
next
  case (Cons kv kvs)
  obtain c p where kv: "kv = (c, p)" by (cases kv)
  let ?q = "(peers h ! p)\<lparr>sent := sent (peers h ! p) @ [chunk]\<rparr>"
  let ?h1 = "h\<lparr>peers := (peers h)[p := ?q]\<rparr>"
  from Cons.prems kv have p: "p < length (peers h)" "connected (peers h ! p)"
    "\<not> destroyed (peers h ! p)" and np: "p \<notin> snd ` set kvs" and d: "distinct (map snd kvs)"
    by auto
  have send: "peer_send chunk p (peers h) = Inr ((peers h)[p := ?q])"
    using p by (simp add: peer_send_def Peer_send_def)
  have pre: "\<forall>(c, i) \<in> set kvs. i < length (peers ?h1) \<and> connected (peers ?h1 ! i)
             \<and> \<not> destroyed (peers ?h1 ! i)"
    using Cons.prems(1) p by (auto simp: nth_list_update)
  have "map (\<lambda>i. if i \<in> snd ` set kvs
                  then (peers ?h1 ! i)\<lparr>sent := sent (peers ?h1 ! i) @ [chunk]\<rparr>
                  else peers ?h1 ! i) [0..<length (peers ?h1)]
      = map (\<lambda>i. if i \<in> snd ` set (kv # kvs)
                  then (peers h ! i)\<lparr>sent := sent (peers h ! i) @ [chunk]\<rparr>
                  else peers h ! i) [0..<length (peers h)]"
    using np p(1) unfolding kv by (intro nth_equalityI) (auto simp: nth_list_update)
  then show ?case
    unfolding kv using send Cons.IH [OF pre d] by simp
qed

text \<open>
  C4.  A Host with an open socket and no guests receives any events, among them
  GuestRequest envelopes with pairwise distinct client identifiers, in any
  interleaving with the peers' events.  Once every peer made has had its \<open>connect\<close>,
  the registry has exactly one entry per request, keyed by the identifiers and holding
  the handle made for each, and \<open>sendToAll\<close> returns normally having sent the same
  serialized message once on every one of these peers.
\<close>

theorem all_guests_registered:
  assumes s: "socket h0 \<noteq> None" and p0: "peers h0 = []" and r0: "connections h0 = []"
    and dist: "distinct (guest_requests es)"
    and conn: "\<forall>q \<in> set (peers (host_run env h0 es)). connected q"
  shows "let h = host_run env h0 es; gs = guest_requests es in
     length (connections h) = length gs
   \<and> fst ` set (connections h) = set gs
   \<and> set (connections h) = set (zip gs [0..<length gs])
   \<and> length (peers h) = length gs
   \<and> sendToAll env message h =
       Done (h\<lparr>peers := map (\<lambda>q. q\<lparr>sent := sent q @ [stringify env message]\<rparr>) (peers h)\<rparr>)"
proof -
  let ?h = "host_run env h0 es"
  let ?gs = "guest_requests es"
  let ?reg = "connections ?h"
  let ?N = "length ?gs"
  have inv: "handshake_inv ?h"
    by (rule handshake_inv_run [OF handshake_inv_empty [OF p0 r0]])
  have oc: "map on_connect (peers ?h) = map (\<lambda>c. [c]) ?gs"
    by (rule run_guests [OF s p0 r0])
  have len: "length (peers ?h) = ?N"
    using arg_cong [OF oc, of length] by simp
  have ocn: "on_connect (peers ?h ! p) = [?gs ! p]" if "p < ?N" for p
  proof -
    from that len have "on_connect (peers ?h ! p) = map on_connect (peers ?h) ! p" by simp
    also have "\<dots> = [?gs ! p]" unfolding oc using that by simp
    finally show ?thesis .
  qed
  have con: "connected (peers ?h ! p)" if "p < ?N" for p
    using conn that len by simp
  have sub: "p < ?N \<and> c = ?gs ! p" if "(c, p) \<in> set ?reg" for c p
  proof -
    from inv that have "p < length (peers ?h)" "on_connect (peers ?h ! p) = [c]"
      unfolding handshake_inv_def inv_reg_def by auto
    with ocn [of p] len show ?thesis by simp
  qed
  have pair: "(?gs ! p, p) \<in> set ?reg" if "p < ?N" for p
  proof -
    from inv that len con [OF that] ocn [OF that] have "?gs ! p \<in> fst ` set ?reg"
      unfolding handshake_inv_def inv_keys_def by simp
    then obtain p' where p': "(?gs ! p, p') \<in> set ?reg" by auto
    from sub [OF p'] have "p' < ?N" "?gs ! p = ?gs ! p'" by simp_all
    with dist that have "p' = p" by (simp add: nth_eq_iff_index_eq)
    with p' show ?thesis by simp
  qed
  have set_eq: "set ?reg = set (zip ?gs [0..<?N])"
  proof (intro set_eqI iffI)
    fix x assume x: "x \<in> set ?reg"
    obtain c p where cp: "x = (c, p)" by (cases x)
    from sub [of c p] x cp have "p < ?N" "c = ?gs ! p" by simp_all
    then show "x \<in> set (zip ?gs [0..<?N])"
      unfolding cp by (auto simp: in_set_zip intro!: exI [of _ p])
  next
    fix x assume "x \<in> set (zip ?gs [0..<?N])"
    then obtain p where "p < ?N" "x = (?gs ! p, p)"
      by (auto simp: in_set_zip)
    with pair show "x \<in> set ?reg" by simp
  qed
  have keys: "fst ` set ?reg = set ?gs"
  proof (intro set_eqI iffI)
    fix c assume "c \<in> fst ` set ?reg"
    then obtain p where "(c, p) \<in> set ?reg" by auto
    from sub [OF this] show "c \<in> set ?gs" by simp
  next
    fix c assume "c \<in> set ?gs"
    then obtain p where "p < ?N" "c = ?gs ! p" by (auto simp: in_set_conv_nth)
    with pair [of p] show "c \<in> fst ` set ?reg" by force
  qed
  from inv have dk: "distinct (map fst ?reg)"
    unfolding handshake_inv_def inv_keys_def by simp
  have "length ?reg = card (fst ` set ?reg)"
    using distinct_card [OF dk] by simp
  also have "\<dots> = ?N" unfolding keys using distinct_card [OF dist] .
  finally have lreg: "length ?reg = ?N" .
  have dv: "distinct (map snd ?reg)"
  proof -
    from dk have "distinct ?reg" by (simp add: distinct_map)
    moreover have "inj_on snd (set ?reg)"
    proof (rule inj_onI)
      fix x y assume xy: "x \<in> set ?reg" "y \<in> set ?reg" "snd x = snd y"
      obtain c p where x: "x = (c, p)" by (cases x)
      obtain c' p' where y: "y = (c', p')" by (cases y)
      from xy sub [of c p] sub [of c' p'] show "x = y" unfolding x y by simp
    qed
    ultimately show ?thesis by (simp add: distinct_map)
  qed
  have vals: "i \<in> snd ` set ?reg" if "i < ?N" for i
    using pair [OF that] by force
  have ok: "\<forall>(c, p) \<in> set ?reg. p < length (peers ?h) \<and> connected (peers ?h ! p)
             \<and> \<not> destroyed (peers ?h ! p)"
    using inv unfolding handshake_inv_def inv_reg_def inv_shape_def by fastforce
  have "map (\<lambda>i. if i \<in> snd ` set ?reg
                  then (peers ?h ! i)\<lparr>sent := sent (peers ?h ! i) @ [stringify env message]\<rparr>
                  else peers ?h ! i) [0..<length (peers ?h)]
      = map (\<lambda>q. q\<lparr>sent := sent q @ [stringify env message]\<rparr>) (peers ?h)"
    using vals len by (intro nth_equalityI) simp_all
  then have snd: "sendToAll env message ?h =
       Done (?h\<lparr>peers := map (\<lambda>q. q\<lparr>sent := sent q @ [stringify env message]\<rparr>) (peers ?h)\<rparr>)"
    unfolding sendToAll_def forEach_send_all [OF ok dv] by simp
  show ?thesis unfolding Let_def using lreg keys set_eq len snd by simp
qed

theorem all_guests_registered_witness:
  "socket (createRoom (Host_new ''wss://relay'')) \<noteq> None
   \<and> peers (createRoom (Host_new ''wss://relay'')) = []
   \<and> connections (createRoom (Host_new ''wss://relay'')) = []
   \<and> distinct (guest_requests
        [ListenForGuests 1,
         HostTransport (SocketData (Envelope (GuestRequest ''O1'' ''guest1''))),
         HostTransport (SocketData (Envelope (GuestRequest ''O2'' ''guest2''))),
         HostTransport (PeerSignal 0 ''A1''),
         HostTransport (PeerConnect 1), HostTransport (PeerConnect 0) :: string host_event])
   \<and> list_all connected (peers (host_run plain_env (createRoom (Host_new ''wss://relay''))
        [ListenForGuests 1,
         HostTransport (SocketData (Envelope (GuestRequest ''O1'' ''guest1''))),
         HostTransport (SocketData (Envelope (GuestRequest ''O2'' ''guest2''))),
         HostTransport (PeerSignal 0 ''A1''),
         HostTransport (PeerConnect 1), HostTransport (PeerConnect 0)]))
   \<and> connections (host_run plain_env (createRoom (Host_new ''wss://relay''))
        [ListenForGuests 1,
         HostTransport (SocketData (Envelope (GuestRequest ''O1'' ''guest1''))),
         HostTransport (SocketData (Envelope (GuestRequest ''O2'' ''guest2''))),
         HostTransport (PeerSignal 0 ''A1''),
         HostTransport (PeerConnect 1), HostTransport (PeerConnect 0)])
       = [(''guest2'', 1), (''guest1'', 0)]
   \<and> map sent (peers (state_of (sendToAll plain_env ''hi''
        (host_run plain_env (createRoom (Host_new ''wss://relay''))
          [ListenForGuests 1,
           HostTransport (SocketData (Envelope (GuestRequest ''O1'' ''guest1''))),
           HostTransport (SocketData (Envelope (GuestRequest ''O2'' ''guest2''))),
           HostTransport (PeerSignal 0 ''A1''),
           HostTransport (PeerConnect 1), HostTransport (PeerConnect 0)]))))
       = [[[CHR 0x22, CHR ''h'', CHR ''i'', CHR 0x22]], [[CHR 0x22, CHR ''h'', CHR ''i'', CHR 0x22]]]"
proof -
  let ?init = "createRoom (Host_new ''wss://relay'')"
  let ?es = "[ListenForGuests 1,
         HostTransport (SocketData (Envelope (GuestRequest ''O1'' ''guest1''))),
         HostTransport (SocketData (Envelope (GuestRequest ''O2'' ''guest2''))),
         HostTransport (PeerSignal 0 ''A1''),
         HostTransport (PeerConnect 1), HostTransport (PeerConnect 0)] :: string host_event list"
  let ?h = "host_run plain_env ?init ?es"
  have s: "socket ?init \<noteq> None" by (simp add: createRoom_def)
  have p: "peers ?init = []" by (simp add: createRoom_def Host_new_def)
  have r: "connections ?init = []" by (simp add: createRoom_def Host_new_def)
  have d: "distinct (guest_requests ?es)" by simp
  have h: "peers ?h =
      [\<lparr>initiator = False, trickle = False, signalled = [''O1''], on_signal = [''guest1''],
         on_connect = [''guest1''], on_data = [()], connected = True, destroyed = False,
         sent = []\<rparr>,
       \<lparr>initiator = False, trickle = False, signalled = [''O2''], on_signal = [''guest2''],
         on_connect = [''guest2''], on_data = [()], connected = True, destroyed = False,
         sent = []\<rparr>]
     \<and> connections ?h = [(''guest2'', 1), (''guest1'', 0)]"
    by (simp add: host_eval)
  have c: "\<forall>q \<in> set (peers ?h). connected q" using h by simp
  from all_guests_registered [OF s p r d c, of "''hi''"]
  have "sendToAll plain_env ''hi'' ?h =
       Done (?h\<lparr>peers := map (\<lambda>q. q\<lparr>sent := sent q @ [stringify plain_env ''hi'']\<rparr>) (peers ?h)\<rparr>)"
    by (simp add: Let_def)
  then have "map sent (peers (state_of (sendToAll plain_env ''hi'' ?h)))
      = [[[CHR 0x22, CHR ''h'', CHR ''i'', CHR 0x22]], [[CHR 0x22, CHR ''h'', CHR ''i'', CHR 0x22]]]"
    using h by (simp add: plain_env_def)
  with s p r d c h show ?thesis by (simp add: list_all_iff)
qed

subsection \<open>The awaitable of joinRoom\<close>

lemma emit_preserves_in:
  assumes "\<And>l s. l \<in> set ls \<Longrightarrow> P s \<Longrightarrow> P (state_of (f l s))" and "P s"
  shows "P (state_of (emit f ls s))"
  using assms
proof (induction ls arbitrary: s)
  case Nil
  then show ?case by simp
next
  case (Cons l ls)
  have "P (state_of (f l s))" by (rule Cons.prems(1)) (simp_all add: Cons.prems(2))
  then show ?case
    by (cases "f l s") (auto intro!: Cons.IH Cons.prems(1))
qed

lemma apply_answer_shape:
  "map on_connect (peers (apply_answer a c)) = map on_connect (peers c)
   \<and> joins (apply_answer a c) = joins c \<and> now (apply_answer a c) = now c
   \<and> peer (apply_answer a c) = peer c
   \<and> onMessageReceived (apply_answer a c) = onMessageReceived c"
  by (simp add: apply_answer_def Peer_signal_def map_update list_update_same_conv
      split: option.splits)

lemma apply_answers_shape:
  "map on_connect (peers ((apply_answer a ^^ n) c)) = map on_connect (peers c)
   \<and> joins ((apply_answer a ^^ n) c) = joins c \<and> now ((apply_answer a ^^ n) c) = now c
   \<and> peer ((apply_answer a ^^ n) c) = peer c
   \<and> onMessageReceived ((apply_answer a ^^ n) c) = onMessageReceived c"
  by (induction n) (simp_all add: apply_answer_shape)

lemma Client_socket_data_shape:
  "map on_connect (peers (state_of (Client_socket_data env d c))) = map on_connect (peers c)
   \<and> joins (state_of (Client_socket_data env d c)) = joins c
   \<and> now (state_of (Client_socket_data env d c)) = now c
   \<and> peer (state_of (Client_socket_data env d c)) = peer c
   \<and> onMessageReceived (state_of (Client_socket_data env d c)) = onMessageReceived c"
  by (cases d)
    (auto simp: Client_socket_data_def apply_answers_shape
      split: signal_response.splits sum.splits)

lemma emit_Client_peer_signal_shape:
  "peers (state_of (emit (Client_peer_signal sig) ls c)) = peers c
   \<and> joins (state_of (emit (Client_peer_signal sig) ls c)) = joins c
   \<and> now (state_of (emit (Client_peer_signal sig) ls c)) = now c
   \<and> peer (state_of (emit (Client_peer_signal sig) ls c)) = peer c
   \<and> onMessageReceived (state_of (emit (Client_peer_signal sig) ls c)) = onMessageReceived c"
  by (rule emit_preserves [where P = "\<lambda>s. peers s = peers c \<and> joins s = joins c
        \<and> now s = now c \<and> peer s = peer c \<and> onMessageReceived s = onMessageReceived c"])
    (simp_all add: Client_peer_signal_def socket_send_def split: option.splits sum.splits)

lemma leaveRoom_shape:
  "map on_connect (peers (state_of (leaveRoom c))) = map on_connect (peers c)
   \<and> joins (state_of (leaveRoom c)) = joins c \<and> now (state_of (leaveRoom c)) = now c
   \<and> peer (state_of (leaveRoom c)) = peer c
   \<and> onMessageReceived (state_of (leaveRoom c)) = onMessageReceived c"
  by (simp add: leaveRoom_def map_update list_update_same_conv split: option.splits)

lemma send_shape:
  "map on_connect (peers (state_of (send env m c))) = map on_connect (peers c)
   \<and> joins (state_of (send env m c)) = joins c \<and> now (state_of (send env m c)) = now c
   \<and> peer (state_of (send env m c)) = peer c
   \<and> onMessageReceived (state_of (send env m c)) = onMessageReceived c"
  by (auto simp: send_def peer_send_def Peer_send_def map_update list_update_same_conv
      split: option.splits sum.splits if_splits)

lemma joinRoom_shape:
  "map on_connect (peers (fst (joinRoom room c))) = map on_connect (peers c) @ [[length (joins c)]]
   \<and> joins (fst (joinRoom room c)) = joins c @ [TimedPromise (30 * 1000) (now c)]
   \<and> now (fst (joinRoom room c)) = now c
   \<and> peer (fst (joinRoom room c)) = Some (length (peers c))
   \<and> snd (joinRoom room c) = length (joins c)
   \<and> onMessageReceived (fst (joinRoom room c)) = onMessageReceived c"
  by (simp add: joinRoom_def Let_def Peer_new_def apply_answer_shape split: promise.splits)

lemma client_step_shape:
  assumes "\<not> changes_joins e"
  shows "map on_connect (peers (state_of (client_step env s e))) = map on_connect (peers s)
   \<and> joins (state_of (client_step env s e)) = joins s
   \<and> now (state_of (client_step env s e)) = now s
   \<and> peer (state_of (client_step env s e)) = peer s"
proof (cases e)
  case (ClientTransport ev)
  with assms show ?thesis
    by (cases ev)
      (simp_all add: client_step_def client_transport_def Client_socket_data_shape
        emit_Client_peer_signal_shape emit_Client_peer_data)
qed (use assms in \<open>simp_all add: client_step_def leaveRoom_shape send_shape listenForMessages_def\<close>)

lemma timed_resolve_simps:
  "deadline (timed_resolve tp) = deadline tp"
  "settled (timed_resolve tp) = (if settled tp = Pending then Resolved () else settled tp)"
  by (simp_all add: timed_resolve_def split: promise.splits)

lemma timed_elapse_simps:
  "deadline (timed_elapse tie t tp) = deadline tp"
  "settled (timed_elapse tie t tp) =
     (if settled tp = Pending \<and> (deadline tp < t \<or> (deadline tp = t \<and> tie))
      then Rejected Timeout else settled tp)"
  by (simp_all add: timed_elapse_def split: promise.splits)

lemma Client_peer_connect_shape:
  "map on_connect (peers (state_of (Client_peer_connect env j s))) = map on_connect (peers s)
   \<and> now (state_of (Client_peer_connect env j s)) = now s
   \<and> peer (state_of (Client_peer_connect env j s)) = peer s
   \<and> (joins (state_of (Client_peer_connect env j s)) = joins s
       \<or> (j < length (joins s)
           \<and> joins (state_of (Client_peer_connect env j s)) = (joins s)[j := timed_resolve (joins s ! j)]))"
  by (auto simp: Client_peer_connect_def Let_def map_update list_update_same_conv
      split: option.splits)

lemma connect_rel_step:
  assumes l: "l \<in> set ls" and r: "connect_rel ls s0 s"
  shows "connect_rel ls s0 (state_of (Client_peer_connect env l s))"
proof -
  let ?s' = "state_of (Client_peer_connect env l s)"
  from Client_peer_connect_shape [of env l s]
  have sh: "map on_connect (peers ?s') = map on_connect (peers s)" "now ?s' = now s"
    "peer ?s' = peer s"
    and j: "joins ?s' = joins s
       \<or> (l < length (joins s) \<and> joins ?s' = (joins s)[l := timed_resolve (joins s ! l)])"
    by simp_all
  from j show ?thesis
  proof
    assume "joins ?s' = joins s"
    with r sh show ?thesis unfolding connect_rel_def by simp
  next
    assume a: "l < length (joins s) \<and> joins ?s' = (joins s)[l := timed_resolve (joins s ! l)]"
    show ?thesis unfolding connect_rel_def
    proof (intro conjI allI impI)
      fix i assume i: "i < length (joins s0)"
      with r have i': "i < length (joins s)" and d: "deadline (joins s ! i) = deadline (joins s0 ! i)"
        and st: "settled (joins s ! i) = settled (joins s0 ! i)
                \<or> (i \<in> set ls \<and> settled (joins s0 ! i) = Pending
                    \<and> settled (joins s ! i) = Resolved ())"
        unfolding connect_rel_def by simp_all
      show "deadline (joins ?s' ! i) = deadline (joins s0 ! i)"
        using a d i' by (cases "i = l") (simp_all add: timed_resolve_simps)
      show "settled (joins ?s' ! i) = settled (joins s0 ! i)
                \<or> (i \<in> set ls \<and> settled (joins s0 ! i) = Pending
                    \<and> settled (joins ?s' ! i) = Resolved ())"
        using a st i' l by (cases "i = l") (auto simp: timed_resolve_simps)
    qed (use r sh a in \<open>simp_all add: connect_rel_def\<close>)
  qed
qed

lemma connect_rel_emit:
  assumes "connect_rel ls s0 s"
  shows "connect_rel ls s0 (state_of (emit (Client_peer_connect env) ls s))"
  by (rule emit_preserves_in [where P = "connect_rel ls s0"]) (simp_all add: connect_rel_step assms)

lemma client_step_PeerConnect:
  assumes "q < length (peers s)"
  shows "connect_rel (on_connect (peers s ! q)) s
           (state_of (client_step env s (ClientTransport (PeerConnect q))))"
proof -
  let ?s0 = "s\<lparr>peers := (peers s)[q := (peers s ! q)\<lparr>connected := True\<rparr>]\<rparr>"
  have "connect_rel (on_connect (peers s ! q)) s ?s0"
    using assms by (simp add: connect_rel_def map_update list_update_same_conv)
  from connect_rel_emit [OF this, of env] assms show ?thesis
    by (simp add: client_step_def client_transport_def)
qed

lemma client_step_cases:
  obtains (frame)
      "map on_connect (peers (state_of (client_step env s e))) = map on_connect (peers s)"
      "joins (state_of (client_step env s e)) = joins s"
      "now (state_of (client_step env s e)) = now s"
      "peer (state_of (client_step env s e)) = peer s"
  | (join) room where "e = JoinRoom room"
      "map on_connect (peers (state_of (client_step env s e)))
         = map on_connect (peers s) @ [[length (joins s)]]"
      "joins (state_of (client_step env s e)) = joins s @ [TimedPromise (30 * 1000) (now s)]"
      "now (state_of (client_step env s e)) = now s"
      "peer (state_of (client_step env s e)) = Some (length (peers s))"
  | (elapse) d where "e = Elapse d"
      "peers (state_of (client_step env s e)) = peers s"
      "joins (state_of (client_step env s e))
         = map (timed_elapse (timer_wins_tie env) (now s + d)) (joins s)"
      "now (state_of (client_step env s e)) = now s + d"
      "peer (state_of (client_step env s e)) = peer s"
  | (connect) q where "e = ClientTransport (PeerConnect q)" "q < length (peers s)"
      "connect_rel (on_connect (peers s ! q)) s (state_of (client_step env s e))"
proof (cases "changes_joins e")
  case False
  from client_step_shape [OF False, of env s] show ?thesis by (intro frame) simp_all
next
  case True
  then consider q where "e = ClientTransport (PeerConnect q)"
    | room where "e = JoinRoom room" | d where "e = Elapse d"
    by (cases e rule: changes_joins.cases) auto
  then show ?thesis
  proof cases
    case 1
    show ?thesis
    proof (cases "q < length (peers s)")
      case True
      show ?thesis
        by (rule connect [OF 1 True]) (simp add: 1 client_step_PeerConnect [OF True])
    next
      case False
      then have "state_of (client_step env s e) = s"
        by (simp add: 1 client_step_def client_transport_def)
      then show ?thesis by (intro frame) simp_all
    qed
  next
    case 2
    show ?thesis
      by (rule join [OF 2]) (simp_all add: 2 client_step_def joinRoom_shape)
  next
    case 3
    show ?thesis
      by (rule elapse [OF 3]) (simp_all add: 3 client_step_def elapse_def)
  qed
qed

lemma settled_step:
  assumes k: "k < length (joins s)" and v: "settled (joins s ! k) = v" and n: "v \<noteq> Pending"
  shows "k < length (joins (state_of (client_step env s e)))
       \<and> settled (joins (state_of (client_step env s e)) ! k) = v"
proof (cases rule: client_step_cases [where e = e and env = env and s = s, case_names frame join elapse connect])
  case frame
  with k v show ?thesis by simp
next
  case (join room)
  with k v show ?thesis by (simp add: nth_append)
next
  case (elapse d)
  with k v n show ?thesis by (simp add: timed_elapse_simps)
next
  case (connect q)
  with k v n show ?thesis unfolding connect_rel_def by auto
qed

lemma settled_run:
  assumes "k < length (joins s)" and "settled (joins s ! k) = v" and "v \<noteq> Pending"
  shows "k < length (joins (client_run env s es)) \<and> settled (joins (client_run env s es) ! k) = v"
proof (induction es rule: rev_induct)
  case Nil
  from assms show ?case by (simp add: client_run_def)
next
  case (snoc e es)
  then show ?case unfolding client_run_snoc using settled_step [OF _ _ assms(3)] by blast
qed

lemma wfc_step:
  assumes "wfc s"
  shows "wfc (state_of (client_step env s e))"
proof (cases rule: client_step_cases [where e = e and env = env and s = s, case_names frame join elapse connect])
  case frame
  with assms show ?thesis unfolding wfc_def Let_def by simp
next
  case (join room)
  with assms show ?thesis unfolding wfc_def Let_def
    by (auto simp: nth_append less_Suc_eq)
next
  case (elapse d)
  with assms show ?thesis unfolding wfc_def Let_def by simp
next
  case (connect q)
  with assms show ?thesis unfolding wfc_def Let_def connect_rel_def by simp
qed

lemma wfc_run: "wfc s \<Longrightarrow> wfc (client_run env s es)"
  by (induction es rule: rev_induct) (simp_all add: client_run_def wfc_step)

lemma wfc_new: "wfc (Client_new server)"
  by (simp add: wfc_def Client_new_def)

lemma trackedI:
  assumes a: "p < length (peers s)" and b: "on_connect (peers s ! p) = [k]"
    and c: "\<And>q j. q < length (peers s) \<Longrightarrow> j \<in> set (on_connect (peers s ! q))
            \<Longrightarrow> j < length (joins s) \<and> (j = k \<longrightarrow> q = p)"
    and d: "deadline (joins s ! k) = D"
    and e: "\<exists>q. peer s = Some q \<and> q < length (peers s)"
  shows "tracked p k D s"
  unfolding tracked_def Let_def
proof (intro conjI allI impI ballI)
  show "p < length (map on_connect (peers s))" using a by simp
  show "map on_connect (peers s) ! p = [k]" using a b by simp
  show "deadline (joins s ! k) = D" by (rule d)
  show "\<exists>q. peer s = Some q \<and> q < length (map on_connect (peers s))" using e by simp
next
  fix q j
  assume "q < length (map on_connect (peers s))" "j \<in> set (map on_connect (peers s) ! q)"
  then have q: "q < length (peers s)" "j \<in> set (on_connect (peers s ! q))" by simp_all
  from c [OF q] show "j < length (joins s)" by simp
  assume "j = k"
  with c [OF q] show "q = p" by simp
qed

lemma trackedD:
  assumes "tracked p k D s"
  shows "p < length (peers s)" and "on_connect (peers s ! p) = [k]"
    and "\<And>q j. q < length (peers s) \<Longrightarrow> j \<in> set (on_connect (peers s ! q))
            \<Longrightarrow> j < length (joins s) \<and> (j = k \<longrightarrow> q = p)"
    and "deadline (joins s ! k) = D"
    and "\<exists>q. peer s = Some q \<and> q < length (peers s)"
    and "k < length (joins s)"
proof -
  from assms have a: "p < length (map on_connect (peers s))"
    and b: "map on_connect (peers s) ! p = [k]"
    and c: "\<forall>q<length (map on_connect (peers s)). \<forall>j \<in> set (map on_connect (peers s) ! q).
              j < length (joins s) \<and> (j = k \<longrightarrow> q = p)"
    and d: "deadline (joins s ! k) = D"
    and e: "\<exists>q. peer s = Some q \<and> q < length (map on_connect (peers s))"
    unfolding tracked_def Let_def by blast+
  from a show p: "p < length (peers s)" by simp
  from b p show oc: "on_connect (peers s ! p) = [k]" by simp
  from d show "deadline (joins s ! k) = D" .
  from e show "\<exists>q. peer s = Some q \<and> q < length (peers s)" by simp
  show r: "j < length (joins s) \<and> (j = k \<longrightarrow> q = p)"
    if "q < length (peers s)" "j \<in> set (on_connect (peers s ! q))" for q j
  proof -
    from that have "q < length (map on_connect (peers s))"
      "j \<in> set (map on_connect (peers s) ! q)" by simp_all
    with c show ?thesis by blast
  qed
  from r [OF p, of k] oc show "k < length (joins s)" by simp
qed

lemma map_nth_eq:
  assumes "map f xs = map f ys"
  shows "length xs = length ys" and "\<And>i. i < length ys \<Longrightarrow> f (xs ! i) = f (ys ! i)"
proof -
  from assms show l: "length xs = length ys" by (rule map_eq_imp_length_eq)
  fix i assume "i < length ys"
  with l have "f (xs ! i) = map f xs ! i" "f (ys ! i) = map f ys ! i" by simp_all
  with assms show "f (xs ! i) = f (ys ! i)" by simp
qed

lemma tracked_step:
  assumes t: "tracked p k D s"
  shows "tracked p k D (state_of (client_step env s e))"
proof -
  let ?s' = "state_of (client_step env s e)"
  note d = trackedD [OF t]
  show ?thesis
  proof (cases rule: client_step_cases [where e = e and env = env and s = s, case_names frame join elapse connect])
    case frame
    note m = map_nth_eq [OF frame(1)]
    show ?thesis
    proof (rule trackedI)
      show "p < length (peers ?s')" using d(1) m(1) by simp
      show "on_connect (peers ?s' ! p) = [k]" using d(1,2) m(2) by simp
      show "deadline (joins ?s' ! k) = D" using d(4) frame(2) by simp
      show "\<exists>q. peer ?s' = Some q \<and> q < length (peers ?s')"
        using d(5) frame(4) m(1) by simp
      fix q j assume "q < length (peers ?s')" "j \<in> set (on_connect (peers ?s' ! q))"
      with m have "q < length (peers s)" "j \<in> set (on_connect (peers s ! q))" by simp_all
      from d(3) [OF this] show "j < length (joins ?s') \<and> (j = k \<longrightarrow> q = p)"
        using frame(2) by simp
    qed
  next
    case (join room)
    have l: "length (peers ?s') = Suc (length (peers s))"
      using arg_cong [OF join(2), of length] by simp
    have n: "on_connect (peers ?s' ! q) =
        (if q < length (peers s) then on_connect (peers s ! q) else [length (joins s)])"
      if "q < Suc (length (peers s))" for q
    proof -
      from that l have "on_connect (peers ?s' ! q) = map on_connect (peers ?s') ! q" by simp
      also have "\<dots> = (if q < length (peers s) then on_connect (peers s ! q) else [length (joins s)])"
        unfolding join(2) using that by (auto simp: nth_append less_Suc_eq)
      finally show ?thesis .
    qed
    show ?thesis
    proof (rule trackedI)
      show "p < length (peers ?s')" using d(1) l by simp
      show "on_connect (peers ?s' ! p) = [k]" using d(1,2) n [of p] by simp
      show "deadline (joins ?s' ! k) = D" using d(4,6) join(3) by (simp add: nth_append)
      show "\<exists>q. peer ?s' = Some q \<and> q < length (peers ?s')" using join(5) l by simp
      fix q j assume q: "q < length (peers ?s')" and j: "j \<in> set (on_connect (peers ?s' ! q))"
      show "j < length (joins ?s') \<and> (j = k \<longrightarrow> q = p)"
      proof (cases "q < length (peers s)")
        case True
        with j n [of q] have "j \<in> set (on_connect (peers s ! q))" by simp
        from d(3) [OF True this] show ?thesis unfolding join(3) by simp
      next
        case False
        with q l j n [of q] have "j = length (joins s)" by simp
        with d(6) show ?thesis unfolding join(3) by simp
      qed
    qed
  next
    case (elapse d')
    show ?thesis
    proof (rule trackedI)
      show "p < length (peers ?s')" using d(1) elapse(2) by simp
      show "on_connect (peers ?s' ! p) = [k]" using d(2) elapse(2) by simp
      show "deadline (joins ?s' ! k) = D"
        using d(4,6) elapse(3) by (simp add: timed_elapse_simps)
      show "\<exists>q. peer ?s' = Some q \<and> q < length (peers ?s')"
        using d(5) elapse(2,5) by simp
      fix q j assume "q < length (peers ?s')" "j \<in> set (on_connect (peers ?s' ! q))"
      with elapse(2) have "q < length (peers s)" "j \<in> set (on_connect (peers s ! q))"
        by simp_all
      from d(3) [OF this] show "j < length (joins ?s') \<and> (j = k \<longrightarrow> q = p)"
        using elapse(3) by simp
    qed
  next
    case (connect q')
    from connect(3) have m1: "map on_connect (peers ?s') = map on_connect (peers s)"
      and pe: "peer ?s' = peer s" and lj: "length (joins ?s') = length (joins s)"
      and dl: "\<And>i. i < length (joins s) \<Longrightarrow> deadline (joins ?s' ! i) = deadline (joins s ! i)"
      unfolding connect_rel_def by simp_all
    note m = map_nth_eq [OF m1]
    show ?thesis
    proof (rule trackedI)
      show "p < length (peers ?s')" using d(1) m(1) by simp
      show "on_connect (peers ?s' ! p) = [k]" using d(1,2) m(2) by simp
      show "deadline (joins ?s' ! k) = D" using d(4,6) dl by simp
      show "\<exists>q. peer ?s' = Some q \<and> q < length (peers ?s')"
        using d(5) pe m(1) by simp
      fix q j assume "q < length (peers ?s')" "j \<in> set (on_connect (peers ?s' ! q))"
      with m have "q < length (peers s)" "j \<in> set (on_connect (peers s ! q))" by simp_all
      from d(3) [OF this] show "j < length (joins ?s') \<and> (j = k \<longrightarrow> q = p)"
        using lj by simp
    qed
  qed
qed

lemma pending_step:
  assumes t: "tracked p k D s"
    and st: "settled (joins s ! k) = status D (timer_wins_tie env) (now s)"
    and e: "e \<noteq> ClientTransport (PeerConnect p)"
  shows "settled (joins (state_of (client_step env s e)) ! k)
           = status D (timer_wins_tie env) (now (state_of (client_step env s e)))"
proof -
  note d = trackedD [OF t]
  show ?thesis
  proof (cases rule: client_step_cases [where e = e and env = env and s = s, case_names frame join elapse connect])
    case frame
    with st show ?thesis by simp
  next
    case (join room)
    with st d(6) show ?thesis by (simp add: nth_append)
  next
    case (elapse d')
    with st d(4,6) show ?thesis by (simp add: timed_elapse_simps status_def)
  next
    case (connect q)
    from connect(1) e have qp: "q \<noteq> p" by auto
    from d(3) [OF connect(2), of k] qp have "k \<notin> set (on_connect (peers s ! q))" by auto
    with connect(3) d(6) have "settled (joins (state_of (client_step env s e)) ! k)
        = settled (joins s ! k)" and "now (state_of (client_step env s e)) = now s"
      unfolding connect_rel_def by auto
    with st show ?thesis by simp
  qed
qed

lemma joinRoom_tracked:
  assumes "wfc c"
  shows "tracked (length (peers c)) (length (joins c)) (now c + 30000) (fst (joinRoom room c))"
    and "settled (joins (fst (joinRoom room c)) ! length (joins c)) = Pending"
    and "now (fst (joinRoom room c)) = now c"
proof -
  let ?c' = "fst (joinRoom room c)"
  note j = joinRoom_shape [of room c]
  from j have "map on_connect (peers ?c') = map on_connect (peers c) @ [[length (joins c)]]"
    by simp
  from arg_cong [OF this, of length] have l: "length (peers ?c') = Suc (length (peers c))"
    by simp
  have n: "on_connect (peers ?c' ! q) =
      (if q < length (peers c) then on_connect (peers c ! q) else [length (joins c)])"
    if "q < Suc (length (peers c))" for q
  proof -
    from that l have "on_connect (peers ?c' ! q) = map on_connect (peers ?c') ! q" by simp
    also have "\<dots> = (if q < length (peers c) then on_connect (peers c ! q) else [length (joins c)])"
      using j that by (auto simp: nth_append less_Suc_eq)
    finally show ?thesis .
  qed
  show "tracked (length (peers c)) (length (joins c)) (now c + 30000) ?c'"
  proof (rule trackedI)
    show "length (peers c) < length (peers ?c')" using l by simp
    show "on_connect (peers ?c' ! length (peers c)) = [length (joins c)]"
      using n [of "length (peers c)"] by simp
    show "deadline (joins ?c' ! length (joins c)) = now c + 30000"
      using j by (simp add: TimedPromise_def)
    show "\<exists>q. peer ?c' = Some q \<and> q < length (peers ?c')" using j l by simp
    fix q i assume q: "q < length (peers ?c')" and i: "i \<in> set (on_connect (peers ?c' ! q))"
    show "i < length (joins ?c') \<and> (i = length (joins c) \<longrightarrow> q = length (peers c))"
    proof (cases "q < length (peers c)")
      case True
      with i n [of q] have "i \<in> set (on_connect (peers c ! q))" by simp
      with assms True have "i < length (joins c)" unfolding wfc_def Let_def by simp
      with j show ?thesis by simp
    next
      case False
      with q l i n [of q] have "i = length (joins c)" "q = length (peers c)" by simp_all
      with j show ?thesis by simp
    qed
  qed
  show "settled (joins ?c' ! length (joins c)) = Pending"
    using j by (simp add: TimedPromise_def)
  show "now ?c' = now c" using j by simp
qed

lemma Client_peer_connect_joins:
  assumes "peer s = Some q" and "q < length (peers s)" and "k < length (joins s)"
    and "rejects_non_function env \<longrightarrow> onMessageReceived s \<noteq> None"
  shows "joins (state_of (Client_peer_connect env k s)) = (joins s)[k := timed_resolve (joins s ! k)]"
proof (cases "rejects_non_function env \<and> onMessageReceived s = None")
  case True
  with assms(4) show ?thesis by simp
next
  case False
  then have f: "(rejects_non_function env \<and> onMessageReceived s = None) = False" by simp
  show ?thesis
    by (simp add: Client_peer_connect_def Let_def f assms(1,2,3))
qed

lemma connect_resolves:
  assumes t: "tracked p k D s"
    and cb: "rejects_non_function env \<longrightarrow> onMessageReceived s \<noteq> None"
  shows "settled (joins (state_of (client_step env s (ClientTransport (PeerConnect p)))) ! k)
           = (if settled (joins s ! k) = Pending then Resolved () else settled (joins s ! k))"
proof -
  note d = trackedD [OF t]
  from d(5) obtain q where q: "peer s = Some q" "q < length (peers s)" by auto
  define s0 where "s0 = s\<lparr>peers := (peers s)[p := (peers s ! p)\<lparr>connected := True\<rparr>]\<rparr>"
  have s0: "peer s0 = Some q" "q < length (peers s0)" "k < length (joins s0)"
    "rejects_non_function env \<longrightarrow> onMessageReceived s0 \<noteq> None" "joins s0 = joins s"
    using q cb d(6) by (simp_all add: s0_def)
  have "state_of (client_step env s (ClientTransport (PeerConnect p)))
      = state_of (emit (Client_peer_connect env) [k] s0)"
    using d(1,2) by (simp add: client_step_def client_transport_def s0_def del: emit.simps)
  also have "\<dots> = state_of (Client_peer_connect env k s0)"
    by (cases "Client_peer_connect env k s0") simp_all
  finally have "joins (state_of (client_step env s (ClientTransport (PeerConnect p))))
      = (joins s)[k := timed_resolve (joins s ! k)]"
    using Client_peer_connect_joins [OF s0(1,2,3,4)] s0(5) by simp
  then show ?thesis using d(6) by (simp add: timed_resolve_simps)
qed

lemma client_run_append:
  "client_run env c (xs @ ys) = client_run env (client_run env c xs) ys"
  by (simp add: client_run_def)

lemma client_run_Cons:
  "client_run env c (e # es) = client_run env (state_of (client_step env c e)) es"
  by (simp add: client_run_def)

lemma tracked_run:
  assumes "tracked p k D s"
  shows "tracked p k D (client_run env s es)"
proof (induction es rule: rev_induct)
  case Nil
  from assms show ?case by (simp add: client_run_def)
next
  case (snoc e es)
  then show ?case unfolding client_run_snoc by (rule tracked_step)
qed

lemma pending_run:
  assumes t: "tracked p k D s"
    and st: "settled (joins s ! k) = status D (timer_wins_tie env) (now s)"
    and es: "ClientTransport (PeerConnect p) \<notin> set es"
  shows "settled (joins (client_run env s es) ! k)
           = status D (timer_wins_tie env) (now (client_run env s es))"
  using es
proof (induction es rule: rev_induct)
  case Nil
  from st show ?case by (simp add: client_run_def)
next
  case (snoc e es)
  then have e: "e \<noteq> ClientTransport (PeerConnect p)"
    and ih: "settled (joins (client_run env s es) ! k)
           = status D (timer_wins_tie env) (now (client_run env s es))" by auto
  show ?case unfolding client_run_snoc
    by (rule pending_step [OF tracked_run [OF t] ih e])
qed

text \<open>
  What the handlers of \<open>joinRoom\<close> do where the \<open>connect\<close> listener gets
  past line 167, that is where a message callback is registered when the \<open>connect\<close>
  fires, or the event emitter accepts a listener that is not a function: a first
  \<open>connect\<close> less than 30000 ms after the call resolves the awaitable for good.
  With no \<open>connect\<close> when more than 30000 ms have passed, the awaitable is rejected
  with \<open>Timeout\<close> for good.  This describes the code; it is not what the
  specification promises, which has no condition on the callback.
\<close>

theorem joinRoom_settles:
  assumes reach: "c = client_run env (Client_new server) es0"
  shows "let c1 = fst (joinRoom room c); k = snd (joinRoom room c); p = length (peers c) in
     (\<forall>es1 es2.
        ClientTransport (PeerConnect p) \<notin> set es1
        \<and> now (client_run env c1 es1) < now c + 30000
        \<and> (rejects_non_function env \<longrightarrow> onMessageReceived (client_run env c1 es1) \<noteq> None)
        \<longrightarrow> k < length (joins (client_run env c1 (es1 @ ClientTransport (PeerConnect p) # es2)))
          \<and> settled (joins (client_run env c1 (es1 @ ClientTransport (PeerConnect p) # es2)) ! k)
              = Resolved ())
   \<and> (\<forall>es1 es2.
        ClientTransport (PeerConnect p) \<notin> set es1
        \<and> now c + 30000 < now (client_run env c1 es1)
        \<longrightarrow> k < length (joins (client_run env c1 (es1 @ es2)))
          \<and> settled (joins (client_run env c1 (es1 @ es2)) ! k) = Rejected Timeout)"
proof -
  let ?c1 = "fst (joinRoom room c)"
  let ?k = "length (joins c)"
  let ?p = "length (peers c)"
  let ?D = "now c + 30000"
  let ?tie = "timer_wins_tie env"
  have w: "wfc c" unfolding reach by (rule wfc_run [OF wfc_new])
  note j = joinRoom_tracked [OF w, of room]
  have k: "snd (joinRoom room c) = ?k" using joinRoom_shape [of room c] by simp
  have st: "settled (joins ?c1 ! ?k) = status ?D ?tie (now ?c1)"
    using j(2,3) by (simp add: status_def)
  have a: "?k < length (joins (client_run env ?c1 (es1 @ ClientTransport (PeerConnect ?p) # es2)))
          \<and> settled (joins (client_run env ?c1 (es1 @ ClientTransport (PeerConnect ?p) # es2)) ! ?k)
              = Resolved ()"
    if es1: "ClientTransport (PeerConnect ?p) \<notin> set es1"
      and t: "now (client_run env ?c1 es1) < ?D"
      and cb: "rejects_non_function env \<longrightarrow> onMessageReceived (client_run env ?c1 es1) \<noteq> None"
    for es1 es2
  proof -
    let ?s1 = "client_run env ?c1 es1"
    let ?s2 = "state_of (client_step env ?s1 (ClientTransport (PeerConnect ?p)))"
    have t1: "tracked ?p ?k ?D ?s1" by (rule tracked_run [OF j(1)])
    have "settled (joins ?s1 ! ?k) = status ?D ?tie (now ?s1)"
      by (rule pending_run [OF j(1) st es1])
    with t have "settled (joins ?s1 ! ?k) = Pending" by (simp add: status_def)
    with connect_resolves [OF t1 cb] have r: "settled (joins ?s2 ! ?k) = Resolved ()" by simp
    have "tracked ?p ?k ?D ?s2" by (rule tracked_step [OF t1])
    then have l: "?k < length (joins ?s2)" by (rule trackedD(6))
    from settled_run [OF l r, of env es2] show ?thesis
      by (simp add: client_run_append client_run_Cons)
  qed
  have b: "?k < length (joins (client_run env ?c1 (es1 @ es2)))
          \<and> settled (joins (client_run env ?c1 (es1 @ es2)) ! ?k) = Rejected Timeout"
    if es1: "ClientTransport (PeerConnect ?p) \<notin> set es1"
      and t: "?D < now (client_run env ?c1 es1)"
    for es1 es2
  proof -
    let ?s1 = "client_run env ?c1 es1"
    have t1: "tracked ?p ?k ?D ?s1" by (rule tracked_run [OF j(1)])
    then have l: "?k < length (joins ?s1)" by (rule trackedD(6))
    have "settled (joins ?s1 ! ?k) = status ?D ?tie (now ?s1)"
      by (rule pending_run [OF j(1) st es1])
    with t have r: "settled (joins ?s1 ! ?k) = Rejected Timeout" by (simp add: status_def)
    from settled_run [OF l r, of env es2] show ?thesis
      by (simp add: client_run_append)
  qed
  show ?thesis unfolding Let_def k using a b by blast
qed

theorem joinRoom_settles_witness:
  "ClientTransport (PeerConnect 0) \<notin> set [Elapse 29999 :: string client_event]
   \<and> now (client_run plain_env
          (fst (joinRoom ''ABC123'' (client_run plain_env (Client_new ''wss://relay'')
             [ClientListenForMessages 7]))) [Elapse 29999]) = 29999
   \<and> onMessageReceived (client_run plain_env
          (fst (joinRoom ''ABC123'' (client_run plain_env (Client_new ''wss://relay'')
             [ClientListenForMessages 7]))) [Elapse 29999]) = Some 7
   \<and> settled (joins (client_run plain_env
          (fst (joinRoom ''ABC123'' (client_run plain_env (Client_new ''wss://relay'')
             [ClientListenForMessages 7])))
          ([Elapse 29999] @ ClientTransport (PeerConnect 0) # [Elapse 5000])) ! 0) = Resolved ()
   \<and> now (client_run plain_env
          (fst (joinRoom ''ABC123'' (client_run plain_env (Client_new ''wss://relay'')
             [ClientListenForMessages 7]))) [Elapse 30001]) = 30001
   \<and> settled (joins (client_run plain_env
          (fst (joinRoom ''ABC123'' (client_run plain_env (Client_new ''wss://relay'')
             [ClientListenForMessages 7])))
          ([Elapse 30001] @ [ClientTransport (PeerConnect 0)])) ! 0) = Rejected Timeout"
proof -
  let ?c = "client_run plain_env (Client_new ''wss://relay'') [ClientListenForMessages 7]"
  let ?c1 = "fst (joinRoom ''ABC123'' ?c)"
  have c: "peers ?c = [] \<and> joins ?c = [] \<and> now ?c = 0" by (simp add: client_eval)
  have k: "snd (joinRoom ''ABC123'' ?c) = 0" using c by (simp add: joinRoom_def Let_def)
  have n1: "now (client_run plain_env ?c1 [Elapse 29999]) = 29999"
    and m1: "onMessageReceived (client_run plain_env ?c1 [Elapse 29999]) = Some 7"
    and n2: "now (client_run plain_env ?c1 [Elapse 30001]) = 30001"
    by (simp_all add: client_eval)
  have r: "rejects_non_function plain_env \<longrightarrow>
      onMessageReceived (client_run plain_env ?c1 [Elapse 29999]) \<noteq> None"
    using m1 by simp
  from joinRoom_settles [OF refl, where env = plain_env and server = "''wss://relay''"
      and ?es0.0 = "[ClientListenForMessages 7]" and room = "''ABC123''"]
  have a: "\<forall>es1 es2.
        ClientTransport (PeerConnect 0) \<notin> set es1
        \<and> now (client_run plain_env ?c1 es1) < 30000
        \<and> (rejects_non_function plain_env \<longrightarrow> onMessageReceived (client_run plain_env ?c1 es1) \<noteq> None)
        \<longrightarrow> settled (joins (client_run plain_env ?c1 (es1 @ ClientTransport (PeerConnect 0) # es2)) ! 0)
              = Resolved ()"
    and b: "\<forall>es1 es2.
        ClientTransport (PeerConnect 0) \<notin> set es1
        \<and> 30000 < now (client_run plain_env ?c1 es1)
        \<longrightarrow> settled (joins (client_run plain_env ?c1 (es1 @ es2)) ! 0) = Rejected Timeout"
    unfolding Let_def k using c by simp_all
  from a [rule_format, of "[Elapse 29999]" "[Elapse 5000]"] n1 r
  have x: "settled (joins (client_run plain_env ?c1
      ([Elapse 29999] @ ClientTransport (PeerConnect 0) # [Elapse 5000])) ! 0) = Resolved ()"
    by simp
  from b [rule_format, of "[Elapse 30001]" "[ClientTransport (PeerConnect 0)]"] n2
  have y: "settled (joins (client_run plain_env ?c1
      ([Elapse 30001] @ [ClientTransport (PeerConnect 0)])) ! 0) = Rejected Timeout"
    by simp
  from n1 m1 n2 x y show ?thesis by simp
qed

text \<open>
  C2.  The specification promises that the awaitable of \<open>joinRoom\<close> resolves when
  the peer's \<open>connect\<close> fires within 30000 ms of the call.  The code breaks the
  promise on a Client on which \<open>listenForMessages\<close> was never called: the
  \<open>connect\<close> listener passes \<open>undefined\<close> to \<open>on\<close> at line 167, the emitter
  throws, and \<open>resolve\<close> at line 168 is never reached.  Evaluated on that input:
  the \<open>connect\<close> fires 100 ms after the call, the listener throws the TypeError,
  the awaitable is still pending, and 29901 ms later the timer rejects it with
  \<open>Timeout\<close>.
\<close>

theorem joinRoom_connect_without_callback:
  "now (client_run plain_env (fst (joinRoom ''ABC123'' (Client_new ''wss://relay'')))
          [Elapse 100]) = 100
   \<and> thrown (client_step plain_env
          (client_run plain_env (fst (joinRoom ''ABC123'' (Client_new ''wss://relay'')))
             [Elapse 100]) (ClientTransport (PeerConnect 0)))
       = Some (TypeError ''The listener argument must be of type function'')
   \<and> settled (joins (client_run plain_env (fst (joinRoom ''ABC123'' (Client_new ''wss://relay'')))
          [Elapse 100, ClientTransport (PeerConnect 0)]) ! snd (joinRoom ''ABC123'' (Client_new ''wss://relay'')))
       = Pending
   \<and> settled (joins (client_run plain_env (fst (joinRoom ''ABC123'' (Client_new ''wss://relay'')))
          [Elapse 100, ClientTransport (PeerConnect 0), Elapse 29901])
          ! snd (joinRoom ''ABC123'' (Client_new ''wss://relay'')))
       = Rejected Timeout"
  by (simp add: client_eval)

end
